theory Spec2Isabelle
  imports Main "HOL-Library.Log_Nat"
begin

section \<open>The Python runtime the handlers rely on\<close>

subsection \<open>Strings\<close>

text \<open>
  A Python \<open>str\<close> is modelled as a \<open>string\<close> whose characters are the code points
  below 256.  \<open>str.strip()\<close> removes the characters for which \<open>str.isspace\<close> holds from
  both ends; below 256 these are the code points 9 to 13, 28 to 32, 133 and 160.
\<close>

definition isspace :: "char \<Rightarrow> bool" where
  "isspace c = (of_char c \<in> set [9::nat, 10, 11, 12, 13, 28, 29, 30, 31, 32, 133, 160])"

definition strip :: "string \<Rightarrow> string" where
  "strip s = rev (dropWhile isspace (rev (dropWhile isspace s)))"

definition is_digit :: "char \<Rightarrow> bool" where
  "is_digit c = (48 \<le> (of_char c :: nat) \<and> (of_char c :: nat) \<le> 57)"

definition digit_char :: "nat \<Rightarrow> char" where
  "digit_char d = char_of (48 + d)"

definition digit_val :: "char \<Rightarrow> int" where
  "digit_val c = of_char c - 48"

text \<open>\<open>str(n)\<close> for a Python int: the decimal digits, with a minus sign when negative.\<close>

fun str_nat :: "nat \<Rightarrow> string" where
  "str_nat n = (if n < 10 then [digit_char n] else str_nat (n div 10) @ [digit_char (n mod 10)])"

declare str_nat.simps [simp del]

definition str_int :: "int \<Rightarrow> string" where
  "str_int i = (if i < 0 then CHR ''-'' # str_nat (nat (- i)) else str_nat (nat i))"

text \<open>The value of a string of decimal digits, most significant digit first.\<close>

definition int_of_digits :: "string \<Rightarrow> int" where
  "int_of_digits ds = foldl (\<lambda>acc c. 10 * acc + digit_val c) 0 ds"

text \<open>ASCII lower-casing, as the case-insensitive match of \<open>inf\<close> and \<open>nan\<close> uses it.\<close>

definition ascii_lower :: "char \<Rightarrow> char" where
  "ascii_lower c = (if 65 \<le> (of_char c :: nat) \<and> (of_char c :: nat) \<le> 90
                    then char_of ((of_char c :: nat) + 32) else c)"

subsection \<open>Floats\<close>

text \<open>
  A Python \<open>float\<close> is an IEEE 754 binary64 value: a finite value (an exact rational;
  \<open>Fin 0\<close> is \<open>+0.0\<close>), the negative zero, the two infinities, or a NaN.
\<close>

datatype pyfloat = Fin rat | NegZero | PInf | NInf | NaN

text \<open>Rounding a rational to the nearest integer, ties to the even one.\<close>

definition round_half_even :: "rat \<Rightarrow> int" where
  "round_half_even q =
     (let f = \<lfloor>q\<rfloor>; d = q - of_int f
      in if d < 1 / 2 then f else if 1 / 2 < d then f + 1 else if even f then f else f + 1)"

text \<open>\<open>\<lfloor>log\<^sub>2 q\<rfloor>\<close> of a positive rational, from the bit lengths of numerator and denominator.\<close>

definition ilog2 :: "rat \<Rightarrow> int" where
  "ilog2 q =
     (let (a, b) = quotient_of q; k = bitlen a - bitlen b
      in if 2 powi k \<le> q then k else k - 1)"

text \<open>
  Rounding a non-negative rational to binary64 (round to nearest, ties to even): 53
  significant bits, the least exponent of the last place is \<open>-1074\<close> (subnormals), and a
  result of \<open>2\<^sup>1\<^sup>0\<^sup>2\<^sup>4\<close> or more overflows (\<open>None\<close>).
\<close>

definition b64_mag :: "rat \<Rightarrow> rat option" where
  "b64_mag q =
     (if q = 0 then Some 0
      else let p = max (ilog2 q - 52) (- 1074);
               r = of_int (round_half_even (q / 2 powi p)) * 2 powi p
           in if 2 ^ 1024 \<le> r then None else Some r)"

text \<open>The binary64 value nearest to a rational of the given sign and magnitude.\<close>

definition b64 :: "bool \<Rightarrow> rat \<Rightarrow> pyfloat" where
  "b64 neg q =
     (case b64_mag q of
        None \<Rightarrow> (if neg then NInf else PInf)
      | Some r \<Rightarrow> (if r = 0 then (if neg then NegZero else Fin 0)
                   else Fin (if neg then - r else r)))"

text \<open>
  \<open>float(s)\<close> on a string: the handlers pass a string that \<open>strip()\<close> has already
  trimmed, so the trimming of ASCII blanks that \<open>float\<close> does itself finds nothing to
  remove and is left out.  An underscore is allowed only between two digits; the rest,
  without its underscores, is an optional sign and then \<open>inf\<close>, \<open>infinity\<close> or \<open>nan\<close> in
  any letter case, or a decimal numeral with an optional fraction and exponent.
  \<open>None\<close> is the \<open>ValueError\<close>.
\<close>

fun underscores_ok :: "char \<Rightarrow> string \<Rightarrow> bool" where
  "underscores_ok prev [] = (prev \<noteq> CHR ''_'')"
| "underscores_ok prev (c # cs) =
     ((if c = CHR ''_'' then is_digit prev
       else (prev = CHR ''_'' \<longrightarrow> is_digit c)) \<and> underscores_ok c cs)"

definition split_sign :: "string \<Rightarrow> bool \<times> string" where
  "split_sign s =
     (case s of
        [] \<Rightarrow> (False, [])
      | c # cs \<Rightarrow> (if c = CHR ''-'' then (True, cs)
                   else if c = CHR ''+'' then (False, cs) else (False, s)))"

definition parse_exponent :: "string \<Rightarrow> int option" where
  "parse_exponent r =
     (case r of
        [] \<Rightarrow> Some 0
      | c # t \<Rightarrow>
          (if c = CHR ''e'' \<or> c = CHR ''E'' then
             (let (neg, ds) = split_sign t
              in if ds \<noteq> [] \<and> list_all is_digit ds
                 then Some (if neg then - int_of_digits ds else int_of_digits ds)
                 else None)
           else None))"

definition parse_decimal :: "string \<Rightarrow> (int \<times> int) option" where
  "parse_decimal u =
     (let ip = takeWhile is_digit u; r1 = dropWhile is_digit u;
          (fp, r2) = (case r1 of
                        [] \<Rightarrow> ([], r1)
                      | c # t \<Rightarrow> (if c = CHR ''.'' then (takeWhile is_digit t, dropWhile is_digit t)
                                   else ([], r1)))
      in if ip = [] \<and> fp = [] then None
         else (case parse_exponent r2 of
                 None \<Rightarrow> None
               | Some e \<Rightarrow> Some (int_of_digits (ip @ fp), e - int (length fp))))"

definition float_of_str :: "string \<Rightarrow> pyfloat option" where
  "float_of_str s =
     (if \<not> underscores_ok (CHR ''x'') s then None
      else let (neg, u) = split_sign (filter (\<lambda>c. c \<noteq> CHR ''_'') s);
               l = map ascii_lower u
           in if l = ''inf'' \<or> l = ''infinity'' then Some (if neg then NInf else PInf)
              else if l = ''nan'' then Some NaN
              else (case parse_decimal u of
                      None \<Rightarrow> None
                    | Some (m, e) \<Rightarrow> Some (b64 neg (of_int m * 10 powi e))))"

text \<open>\<open>x >= 0\<close> on a float: false for a NaN, true for both zeros.\<close>

fun float_ge0 :: "pyfloat \<Rightarrow> bool" where
  "float_ge0 (Fin q) = (0 \<le> q)"
| "float_ge0 NegZero = True"
| "float_ge0 PInf = True"
| "float_ge0 NInf = False"
| "float_ge0 NaN = False"

text \<open>
  \<open>f"{x:.2f}"\<close>: the exact value rounded to two decimals, ties to even, printed with
  its sign, the integer digits, a point and two digits; \<open>inf\<close>, \<open>-inf\<close> and \<open>nan\<close> for
  the special values.
\<close>

definition two_digits :: "nat \<Rightarrow> string" where
  "two_digits n = [digit_char (n div 10), digit_char (n mod 10)]"

definition format_fixed2 :: "bool \<Rightarrow> rat \<Rightarrow> string" where
  "format_fixed2 neg q =
     (let n = nat (round_half_even (q * 100))
      in (if neg then ''-'' else '''') @ str_nat (n div 100) @ ''.'' @ two_digits (n mod 100))"

fun format_2f :: "pyfloat \<Rightarrow> string" where
  "format_2f (Fin q) = format_fixed2 (q < 0) \<bar>q\<bar>"
| "format_2f NegZero = format_fixed2 True 0"
| "format_2f PInf = ''inf''"
| "format_2f NInf = ''-inf''"
| "format_2f NaN = ''nan''"

declare format_2f.simps [simp del]





subsection \<open>Exceptions, JSON values, dictionaries\<close>

datatype py_error =
  ValueError | AttributeError | TypeError | IndexError | KeyError
  | JSONDecodeError | ConnectionError

text \<open>
  A decoded JSON document.  An object is a Python \<open>dict\<close> with string keys, kept as
  an association list.
\<close>

datatype json =
  JNull | JBool bool | JNum rat | JStr string | JArr "json list"
  | JObj "(string \<times> json) list"

text \<open>\<open>obj.get(key, default)\<close>: only a \<open>dict\<close> has the method.\<close>

fun py_get :: "json \<Rightarrow> string \<Rightarrow> json \<Rightarrow> py_error + json" where
  "py_get (JObj kvs) k d = Inr (case map_of kvs k of None \<Rightarrow> d | Some v \<Rightarrow> v)"
| "py_get other k d = Inl AttributeError"

text \<open>
  \<open>obj[0]\<close>: the first element of a list or string; a \<open>dict\<close> decoded from JSON has
  no key \<open>0\<close>; the other values cannot be subscripted.
\<close>

fun py_index0 :: "json \<Rightarrow> py_error + json" where
  "py_index0 (JArr []) = Inl IndexError"
| "py_index0 (JArr (x # xs)) = Inr x"
| "py_index0 (JStr []) = Inl IndexError"
| "py_index0 (JStr (c # cs)) = Inr (JStr [c])"
| "py_index0 (JObj kvs) = Inl KeyError"
| "py_index0 other = Inl TypeError"

definition and_then :: "'e + 'a \<Rightarrow> ('a \<Rightarrow> 'e + 'b) \<Rightarrow> 'e + 'b" where
  "and_then r f = (case r of Inl e \<Rightarrow> Inl e | Inr v \<Rightarrow> f v)"

text \<open>An HTML form: the fields that are present, with their values.\<close>

type_synonym form = "string \<Rightarrow> string option"

definition form_get :: "form \<Rightarrow> string \<Rightarrow> string \<Rightarrow> string" where
  "form_get f k d = (case f k of None \<Rightarrow> d | Some v \<Rightarrow> v)"

section \<open>The application state\<close>

record task =
  task_id :: string
  task_text :: string
  location :: string

record expense =
  expense_id :: string
  description :: string
  amount :: string
  category :: string

record state =
  tasks :: "task list"
  task_id_counter :: int
  expenses :: "expense list"
  expense_id_counter :: int
  total_trip_budget :: pyfloat

definition initial_state :: state where
  "initial_state =
     \<lparr>tasks = [], task_id_counter = 1, expenses = [], expense_id_counter = 1,
      total_trip_budget = Fin 0\<rparr>"

section \<open>Location suggestions\<close>

text \<open>
  What \<open>requests.post\<close> does on one call: it returns a response, or raises (timeout,
  connection error).  A response carries its status code and what \<open>response.json()\<close>
  gives (\<open>None\<close> when the body is not JSON and the call raises).
\<close>

record response =
  status_code :: int
  json_body :: "json option"

datatype outcome = Response response | Raises

datatype log_line = ParseFailure | ApiError int | Unexpected py_error

datatype event = Post | Sleep rat | Print log_line

definition max_retries :: nat where
  "max_retries = 3"

text \<open>
  The chain of \<open>get\<close> and \<open>[0]\<close> that takes the model's text out of the decoded
  response.
\<close>

definition extract_text :: "json \<Rightarrow> py_error + json" where
  "extract_text result =
     and_then (py_get result ''candidates'' (JArr [JObj []])) (\<lambda>cands.
     and_then (py_index0 cands) (\<lambda>cand.
     and_then (py_get cand ''content'' (JObj [])) (\<lambda>content.
     and_then (py_get content ''parts'' (JArr [JObj []])) (\<lambda>parts.
     and_then (py_index0 parts) (\<lambda>part.
     py_get part ''text'' (JStr ''{}''))))))"

text \<open>
  The branch for status 200.  \<open>loads\<close> is \<open>json.loads\<close> on a string; it is a parameter
  of the model.  Its \<open>JSONDecodeError\<close> is caught here; on a value that is not a string
  \<open>json.loads\<close> raises \<open>TypeError\<close>, which is not.
\<close>

definition on_ok :: "(string \<Rightarrow> py_error + json) \<Rightarrow> response \<Rightarrow> (py_error + json) \<times> event list" where
  "on_ok loads r =
     (case json_body r of
        None \<Rightarrow> (Inl JSONDecodeError, [])
      | Some result \<Rightarrow>
          (case extract_text result of
             Inl e \<Rightarrow> (Inl e, [])
           | Inr json_text \<Rightarrow>
               (case json_text of
                  JStr t \<Rightarrow>
                    (case loads t of
                       Inr suggestions \<Rightarrow> (Inr suggestions, [])
                     | Inl e \<Rightarrow> (if e = JSONDecodeError then (Inr (JArr []), [Print ParseFailure])
                                 else (Inl e, [])))
                | other \<Rightarrow> (Inl TypeError, []))))"

text \<open>
  The loop \<open>for i in range(max_retries)\<close>, from index \<open>i\<close> with the current
  \<open>delay\<close>.  The list holds what the coming calls of \<open>requests.post\<close> will do; when it
  is used up the call raises.  The result is the value returned or the exception that
  leaves the loop, with the events in the order they happened.
\<close>

function retry_loop ::
  "(string \<Rightarrow> py_error + json) \<Rightarrow> nat \<Rightarrow> rat \<Rightarrow> outcome list \<Rightarrow> (py_error + json) \<times> event list" where
  "retry_loop loads i delay net =
     (if i < max_retries then
        (case net of
           [] \<Rightarrow> (Inl ConnectionError, [Post])
         | Raises # rest \<Rightarrow> (Inl ConnectionError, [Post])
         | Response r # rest \<Rightarrow>
             (if status_code r = 200 then
                (case on_ok loads r of (res, ev) \<Rightarrow> (res, Post # ev))
              else if status_code r \<in> set [429, 500, 503] \<and> i < max_retries - 1 then
                (case retry_loop loads (i + 1) (delay * 2) rest of
                   (res, ev) \<Rightarrow> (res, Post # Sleep delay # ev))
              else (Inr (JArr []), [Post, Print (ApiError (status_code r))])))
      else (Inr (JArr []), []))"
  by pat_completeness auto
termination
  by (relation "measure (\<lambda>(loads, i, delay, net). max_retries - i)") auto

declare retry_loop.simps [simp del]

text \<open>
  The \<open>try\<close> block of the handler: any exception of the loop is caught, logged, and
  answered with the empty array.
\<close>

definition call_backend :: "(string \<Rightarrow> py_error + json) \<Rightarrow> outcome list \<Rightarrow> json \<times> event list" where
  "call_backend loads net =
     (case retry_loop loads 0 1 net of
        (Inr v, ev) \<Rightarrow> (v, ev)
      | (Inl e, ev) \<Rightarrow> (JArr [], ev @ [Print (Unexpected e)]))"

text \<open>
  The handler of \<open>POST /get_suggestions\<close>; \<open>data\<close> is the decoded request body.  What
  comes before the \<open>try\<close> block is not protected: an exception there leaves the handler
  (\<open>Inl\<close>).
\<close>

definition get_suggestions ::
  "(string \<Rightarrow> py_error + json) \<Rightarrow> json \<Rightarrow> outcome list \<Rightarrow> (py_error + json) \<times> event list" where
  "get_suggestions loads data net =
     (case py_get data ''query'' (JStr []) of
        Inl e \<Rightarrow> (Inl e, [])
      | Inr q \<Rightarrow>
          (case q of
             JStr qs \<Rightarrow>
               (let query = strip qs
                in if length query < 3 then (Inr (JArr []), [])
                   else (case call_backend loads net of (v, ev) \<Rightarrow> (Inr v, ev)))
           | other \<Rightarrow> (Inl AttributeError, [])))"

section \<open>Tasks, expenses and the budget\<close>




definition set_budget :: "form \<Rightarrow> state \<Rightarrow> state" where
  "set_budget f s =
     (let budget_str = strip (form_get f ''total-budget-input'' ''0.00'')
      in case float_of_str budget_str of
           None \<Rightarrow> s
         | Some new_budget \<Rightarrow>
             (if float_ge0 new_budget then
                (case float_of_str (format_2f new_budget) of
                   None \<Rightarrow> s
                 | Some b \<Rightarrow> s\<lparr>total_trip_budget := b\<rparr>)
              else s))"

definition add_task :: "form \<Rightarrow> state \<Rightarrow> state" where
  "add_task f s =
     (let task_text = strip (form_get f ''task-input'' []);
          location_text = strip (form_get f ''location-input'' [])
      in if task_text \<noteq> [] then
           s\<lparr>tasks := \<lparr>task_id = str_int (task_id_counter s), task_text = task_text,
                        location = location_text\<rparr> # tasks s,
             task_id_counter := task_id_counter s + 1\<rparr>
         else s)"

definition delete_task :: "string \<Rightarrow> state \<Rightarrow> state" where
  "delete_task tid s = s\<lparr>tasks := filter (\<lambda>t. task_id t \<noteq> tid) (tasks s)\<rparr>"

definition add_expense :: "form \<Rightarrow> state \<Rightarrow> state" where
  "add_expense f s =
     (let description = strip (form_get f ''expense-description'' []);
          amount_str = strip (form_get f ''expense-amount'' []);
          category = strip (form_get f ''expense-category'' ''Other'')
      in case float_of_str amount_str of
           None \<Rightarrow> s
         | Some amount_float \<Rightarrow>
             (if description \<noteq> [] \<and> float_ge0 amount_float then
                s\<lparr>expenses := \<lparr>expense_id = str_int (expense_id_counter s),
                                description = description,
                                amount = format_2f amount_float,
                                category = category\<rparr> # expenses s,
                  expense_id_counter := expense_id_counter s + 1\<rparr>
              else s))"

definition delete_expense :: "string \<Rightarrow> state \<Rightarrow> state" where
  "delete_expense eid s = s\<lparr>expenses := filter (\<lambda>e. expense_id e \<noteq> eid) (expenses s)\<rparr>"

text \<open>The requests that change the state, and a run of them from a state.\<close>

datatype request =
  SetBudget form | AddTask form | DeleteTask string | AddExpense form | DeleteExpense string

fun handle :: "state \<Rightarrow> request \<Rightarrow> state" where
  "handle s (SetBudget f) = set_budget f s"
| "handle s (AddTask f) = add_task f s"
| "handle s (DeleteTask tid) = delete_task tid s"
| "handle s (AddExpense f) = add_expense f s"
| "handle s (DeleteExpense eid) = delete_expense eid s"

definition run :: "state \<Rightarrow> request list \<Rightarrow> state" where
  "run s rs = foldl handle s rs"

section \<open>Example requests\<close>

text \<open>Forms as a browser or any other client may post them.\<close>

definition budget_form :: "string \<Rightarrow> form" where
  "budget_form v = [''total-budget-input'' \<mapsto> v]"

definition task_form :: "string \<Rightarrow> string \<Rightarrow> form" where
  "task_form t l = [''task-input'' \<mapsto> t, ''location-input'' \<mapsto> l]"

definition expense_form :: "string \<Rightarrow> string \<Rightarrow> string \<Rightarrow> form" where
  "expense_form d a c =
     [''expense-description'' \<mapsto> d, ''expense-amount'' \<mapsto> a, ''expense-category'' \<mapsto> c]"

definition no_category_form :: "string \<Rightarrow> string \<Rightarrow> form" where
  "no_category_form d a = [''expense-description'' \<mapsto> d, ''expense-amount'' \<mapsto> a]"

text \<open>
  A stand-in for \<open>json.loads\<close> that decodes three texts as \<open>json.loads\<close> does and
  rejects the others, and answers of the backend: a bare status, and a 200 whose
  candidate carries a text.
\<close>

definition example_loads :: "string \<Rightarrow> py_error + json" where
  "example_loads t =
     (if t = ''[]'' then Inr (JArr [])
      else if t = ''[1, 2]'' then Inr (JArr [JNum 1, JNum 2])
      else if t = ''{}'' then Inr (JObj [])
      else Inl JSONDecodeError)"

definition status_only :: "int \<Rightarrow> outcome" where
  "status_only c = Response \<lparr>status_code = c, json_body = None\<rparr>"

definition text_body :: "string \<Rightarrow> json" where
  "text_body t =
     JObj [(''candidates'',
        JArr [JObj [(''content'', JObj [(''parts'', JArr [JObj [(''text'', JStr t)]])])]])]"

definition text_response :: "string \<Rightarrow> response" where
  "text_response t =
     \<lparr>status_code = 200, json_body = Some (text_body t)\<rparr>"

definition ok_with_text :: "string \<Rightarrow> outcome" where
  "ok_with_text t = Response (text_response t)"

section \<open>Notions the properties are stated with\<close>

text \<open>A float that is a number: not an infinity and not a NaN.\<close>

fun float_isfinite :: "pyfloat \<Rightarrow> bool" where
  "float_isfinite (Fin q) = True"
| "float_isfinite NegZero = True"
| "float_isfinite x = False"

text \<open>\<open>x < 0\<close> on a float.\<close>

fun float_lt0 :: "pyfloat \<Rightarrow> bool" where
  "float_lt0 (Fin q) = (q < 0)"
| "float_lt0 NInf = True"
| "float_lt0 x = False"

text \<open>
  "The value rounded to 2 decimals", in the specification's words: the float nearest to
  the value's rounding to two decimals (ties to even); values that are not numbers stay
  as they are.
\<close>

fun round_2dp :: "pyfloat \<Rightarrow> pyfloat" where
  "round_2dp (Fin q) = b64 (q < 0) (of_int (round_half_even (\<bar>q\<bar> * 100)) / 100)"
| "round_2dp NegZero = NegZero"
| "round_2dp PInf = PInf"
| "round_2dp NInf = NInf"
| "round_2dp NaN = NaN"

declare round_2dp.simps [simp del]

text \<open>
  A string "with exactly two decimal digits": an optional minus sign, one or more digits,
  a point, and two digits.
\<close>

definition two_decimals :: "string \<Rightarrow> bool" where
  "two_decimals s =
     (let u = (case s of [] \<Rightarrow> [] | c # cs \<Rightarrow> if c = CHR ''-'' then cs else s);
          r = dropWhile is_digit u
      in takeWhile is_digit u \<noteq> [] \<and> length r = 3 \<and> hd r = CHR ''.'' \<and> list_all is_digit (tl r))"

text \<open>
  The ids given to the tasks (expenses) that a run of requests creates, oldest first.  A
  request has created a record when the list is longer after it; the new record is the
  first one.
\<close>

fun issued_task_ids :: "state \<Rightarrow> request list \<Rightarrow> string list" where
  "issued_task_ids s [] = []"
| "issued_task_ids s (r # rs) =
     (if length (tasks s) < length (tasks (handle s r))
      then [task_id (hd (tasks (handle s r)))] else [])
     @ issued_task_ids (handle s r) rs"

fun issued_expense_ids :: "state \<Rightarrow> request list \<Rightarrow> string list" where
  "issued_expense_ids s [] = []"
| "issued_expense_ids s (r # rs) =
     (if length (expenses s) < length (expenses (handle s r))
      then [expense_id (hd (expenses (handle s r)))] else [])
     @ issued_expense_ids (handle s r) rs"

text \<open>
  Every id in a collection is \<open>str\<close> of a number below the collection's counter, and no
  two records of a collection share an id.
\<close>

definition ids_below :: "state \<Rightarrow> bool" where
  "ids_below s \<longleftrightarrow>
     distinct (map task_id (tasks s))
     \<and> (\<forall>t \<in> set (tasks s). \<exists>k. k < task_id_counter s \<and> task_id t = str_int k)
     \<and> distinct (map expense_id (expenses s))
     \<and> (\<forall>e \<in> set (expenses s). \<exists>k. k < expense_id_counter s \<and> expense_id e = str_int k)"


text \<open>
  What a call did, read from its events: the number of requests sent, and the requests
  and waits in their order (the log lines left out).  \<open>schedule n d\<close> is what \<open>n\<close>
  attempts that all fail look like when the first wait is \<open>d\<close>.
\<close>

fun posts :: "event list \<Rightarrow> nat" where
  "posts [] = 0"
| "posts (Post # ev) = Suc (posts ev)"
| "posts (e # ev) = posts ev"

fun actions :: "event list \<Rightarrow> event list" where
  "actions [] = []"
| "actions (Print l # ev) = actions ev"
| "actions (e # ev) = e # actions ev"

fun schedule :: "nat \<Rightarrow> rat \<Rightarrow> event list" where
  "schedule 0 d = []"
| "schedule (Suc 0) d = [Post]"
| "schedule (Suc (Suc n)) d = Post # Sleep d # schedule (Suc n) (d * 2)"

text \<open>A JSON value that is an array.\<close>

fun is_array :: "json \<Rightarrow> bool" where
  "is_array (JArr xs) = True"
| "is_array other = False"



text \<open>
  The answer a call with \<open>n\<close> attempts ends on, in the specification's words: after a
  status 429, 500 or 503 the next answer is taken while attempts remain; a request that
  raises ends the call.
\<close>

fun settles :: "nat \<Rightarrow> outcome list \<Rightarrow> outcome" where
  "settles n [] = Raises"
| "settles n (Raises # rest) = Raises"
| "settles n (Response r # rest) =
     (if status_code r \<in> set [429, 500, 503] \<and> 1 < n then settles (n - 1) rest else Response r)"

text \<open>
  The text of the first candidate's first content part, when every key on the way is
  present: the specification's text payload.
\<close>

definition first_part_text :: "json \<Rightarrow> json option" where
  "first_part_text result =
     (case result of
        JObj kvs \<Rightarrow>
          (case map_of kvs ''candidates'' of
             Some (JArr (JObj cand # cs)) \<Rightarrow>
               (case map_of cand ''content'' of
                  Some (JObj content) \<Rightarrow>
                    (case map_of content ''parts'' of
                       Some (JArr (JObj part # ps)) \<Rightarrow> map_of part ''text''
                     | _ \<Rightarrow> None)
                | _ \<Rightarrow> None)
           | _ \<Rightarrow> None)
      | _ \<Rightarrow> None)"

text \<open>The call ends on an answer with status 200 whose body decodes to \<open>result\<close>.\<close>

definition ends_with_ok :: "outcome list \<Rightarrow> response \<Rightarrow> json \<Rightarrow> bool" where
  "ends_with_ok net r result \<longleftrightarrow>
     settles 3 net = Response r \<and> status_code r = 200 \<and> json_body r = Some result"

section \<open>Facts about the runtime model\<close>

subsection \<open>Digits and the decimal parser\<close>

lemma is_digit_digit_char: "d < 10 \<Longrightarrow> is_digit (digit_char d)"
  by (simp add: is_digit_def digit_char_def)

lemma digit_val_digit_char: "digit_val (digit_char d) = int d" if "d < 10"
proof -
  have "(of_char (digit_char d) :: int) = int (of_char (digit_char d))"
    by (simp only: of_nat_of_char)
  then show ?thesis
    using that by (simp add: digit_val_def digit_char_def)
qed


lemma not_digit_chars:
  "\<not> is_digit (CHR ''.'')" "\<not> is_digit (CHR ''_'')" "\<not> is_digit (CHR ''-'')" "\<not> is_digit (CHR ''+'')"
  "\<not> is_digit (CHR ''i'')" "\<not> is_digit (CHR ''n'')"
  by (simp_all add: is_digit_def)

lemma ascii_lower_digit: "is_digit c \<Longrightarrow> ascii_lower c = c"
  by (simp add: is_digit_def ascii_lower_def)

lemma str_nat_digits: "list_all is_digit (str_nat n)"
  by (induction n rule: str_nat.induct) (subst str_nat.simps, simp add: is_digit_digit_char)

lemma str_nat_nonempty: "str_nat n \<noteq> []"
  by (subst str_nat.simps) simp

lemma int_of_digits_snoc: "int_of_digits (xs @ [c]) = 10 * int_of_digits xs + digit_val c"
  by (simp add: int_of_digits_def)

lemma int_of_digits_str_nat: "int_of_digits (str_nat n) = int n"
proof (induction n rule: str_nat.induct)
  case (1 n)
  show ?case
  proof (cases "n < 10")
    case True
    then show ?thesis
      by (subst str_nat.simps) (simp add: int_of_digits_def digit_val_digit_char)
  next
    case False
    with 1 have "int_of_digits (str_nat (n div 10)) = int (n div 10)" by simp
    with False show ?thesis
      by (subst str_nat.simps) (simp add: int_of_digits_snoc digit_val_digit_char zdiv_int zmod_int)
  qed
qed


lemma underscores_ok_none:
  "CHR ''_'' \<notin> set s \<Longrightarrow> prev \<noteq> CHR ''_'' \<Longrightarrow> underscores_ok prev s"
  by (induction s arbitrary: prev) auto

lemma takeWhile_digits_stop:
  "list_all is_digit xs \<Longrightarrow> \<not> is_digit y \<Longrightarrow> takeWhile is_digit (xs @ y # ys) = xs"
  by (induction xs) auto

lemma dropWhile_digits_stop:
  "list_all is_digit xs \<Longrightarrow> \<not> is_digit y \<Longrightarrow> dropWhile is_digit (xs @ y # ys) = y # ys"
  by (induction xs) auto

lemma two_digits_digits: "b < 100 \<Longrightarrow> list_all is_digit (two_digits b)"
  by (simp add: two_digits_def is_digit_digit_char)

lemma int_of_digits_two: "b < 100 \<Longrightarrow> int_of_digits (xs @ two_digits b) = 100 * int_of_digits xs + int b"
proof -
  assume b: "b < 100"
  have "xs @ two_digits b = (xs @ [digit_char (b div 10)]) @ [digit_char (b mod 10)]"
    by (simp add: two_digits_def)
  then have "int_of_digits (xs @ two_digits b)
      = 10 * (10 * int_of_digits xs + digit_val (digit_char (b div 10))) + digit_val (digit_char (b mod 10))"
    by (simp only: int_of_digits_snoc)
  with b show ?thesis
    by (simp add: digit_val_digit_char zdiv_int zmod_int)
qed

lemma not_digit_in_digits: "list_all is_digit xs \<Longrightarrow> \<not> is_digit c \<Longrightarrow> c \<notin> set xs"
  by (auto simp: list_all_iff)

lemma parse_decimal_fixed:
  assumes "b < 100"
  shows "parse_decimal (str_nat a @ ''.'' @ two_digits b) = Some (int a * 100 + int b, - 2)"
proof -
  have t: "takeWhile is_digit (str_nat a @ CHR ''.'' # two_digits b) = str_nat a"
    by (rule takeWhile_digits_stop) (simp_all add: str_nat_digits not_digit_chars)
  have d: "dropWhile is_digit (str_nat a @ CHR ''.'' # two_digits b) = CHR ''.'' # two_digits b"
    by (rule dropWhile_digits_stop) (simp_all add: str_nat_digits not_digit_chars)
  have all: "\<forall>x\<in>set (two_digits b). is_digit x"
    using two_digits_digits [OF assms] by (simp add: list_all_iff)
  have t2: "takeWhile is_digit (two_digits b) = two_digits b"
    using all by (simp add: takeWhile_eq_all_conv)
  have d2: "dropWhile is_digit (two_digits b) = []"
    using all by simp
  have len: "length (two_digits b) = 2"
    by (simp add: two_digits_def)
  show ?thesis
    using assms
    by (simp add: parse_decimal_def t d t2 d2 len parse_exponent_def str_nat_nonempty
                  int_of_digits_two int_of_digits_str_nat)
qed

lemma float_of_str_fixed:
  assumes "b < 100"
  shows "float_of_str ((if neg then ''-'' else []) @ str_nat a @ ''.'' @ two_digits b)
         = Some (b64 neg (of_int (int a * 100 + int b) / 100))"
proof -
  let ?u = "str_nat a @ ''.'' @ two_digits b"
  let ?s = "(if neg then ''-'' else []) @ ?u"
  obtain c cs where ccs: "str_nat a = c # cs"
    using str_nat_nonempty [of a] by (cases "str_nat a") auto
  have dc: "is_digit c"
    using str_nat_digits [of a] by (simp add: ccs)
  have nou: "CHR ''_'' \<notin> set ?s"
    using not_digit_in_digits [OF str_nat_digits not_digit_chars(2), of a]
          not_digit_in_digits [OF two_digits_digits [OF assms] not_digit_chars(2)]
    by auto
  have uok: "underscores_ok (CHR ''x'') ?s"
    by (rule underscores_ok_none [OF nou]) simp
  have filt: "filter (\<lambda>c. c \<noteq> CHR ''_'') ?s = ?s"
    using nou by (simp only: filter_id_conv) blast
  have sgn: "split_sign ?s = (neg, ?u)"
    using dc not_digit_chars by (auto simp: split_sign_def ccs)
  have low: "map ascii_lower ?u = c # map ascii_lower (cs @ ''.'' @ two_digits b)"
    using dc by (simp add: ccs ascii_lower_digit)
  have ci: "c \<noteq> CHR ''i''" "c \<noteq> CHR ''n''"
    using dc not_digit_chars by auto
  have pw: "(10::rat) powi (- 2) = 1 / 100"
    by (simp add: power_int_def power2_eq_square)
  show ?thesis
    unfolding float_of_str_def
    by (simp only: uok filt sgn low parse_decimal_fixed [OF assms] Let_def split ci pw)
       (simp add: ci)
qed

subsection \<open>Rounding to binary64 is exact on short dyadic numbers\<close>

lemma bitlen_rat_bounds:
  assumes "0 < (a::int)"
  shows "(2::rat) powi (bitlen a - 1) \<le> of_int a" and "of_int a < (2::rat) powi (bitlen a)"
proof -
  have b1: "1 \<le> bitlen a" using assms by (auto simp: bitlen_alt_def)
  from bitlen_bounds [OF assms]
  have lo: "2 ^ nat (bitlen a - 1) \<le> a" and hi: "a < 2 ^ nat (bitlen a)" by auto
  have "(of_int (2 ^ nat (bitlen a - 1)) :: rat) \<le> of_int a"
    using lo by (simp only: of_int_le_iff)
  then show "(2::rat) powi (bitlen a - 1) \<le> of_int a"
    using b1 by (simp add: power_int_def)
  have "(of_int a :: rat) < of_int (2 ^ nat (bitlen a))"
    using hi by (simp only: of_int_less_iff)
  then show "of_int a < (2::rat) powi (bitlen a)"
    using b1 by (simp add: power_int_def)
qed

lemma ilog2_bounds:
  assumes "0 < q"
  shows "2 powi (ilog2 q) \<le> q" and "q < 2 powi (ilog2 q + 1)"
proof -
  obtain a b where ab: "quotient_of q = (a, b)" by (cases "quotient_of q")
  have bpos: "0 < b" using ab by (rule quotient_of_denom_pos)
  have q: "q = of_int a / of_int b" using ab by (rule quotient_of_div)
  have apos: "0 < a" using assms bpos q
    by (simp add: zero_less_divide_iff)
  let ?k = "bitlen a - bitlen b"
  have B: "(0::rat) < of_int b" using bpos by simp
  have up: "q < 2 powi (?k + 1)"
  proof -
    have "of_int a < (2::rat) powi (bitlen a)" by (rule bitlen_rat_bounds [OF apos])
    moreover have "(2::rat) powi (bitlen b - 1) \<le> of_int b" by (rule bitlen_rat_bounds [OF bpos])
    moreover have "(2::rat) powi (?k + 1) * 2 powi (bitlen b - 1) = 2 powi (bitlen a)"
      by (simp add: power_int_add [symmetric])
    moreover have "(2::rat) powi (?k + 1) * 2 powi (bitlen b - 1) \<le> 2 powi (?k + 1) * of_int b"
      by (rule mult_left_mono [OF bitlen_rat_bounds(1) [OF bpos]]) simp
    ultimately have "of_int a < (2::rat) powi (?k + 1) * of_int b"
      by linarith
    then show ?thesis using B by (simp add: q pos_divide_less_eq)
  qed
  have lo: "2 powi (?k - 1) \<le> q"
  proof -
    have "(2::rat) powi (bitlen a - 1) \<le> of_int a" by (rule bitlen_rat_bounds [OF apos])
    moreover have "of_int b < (2::rat) powi (bitlen b)" by (rule bitlen_rat_bounds [OF bpos])
    moreover have "(2::rat) powi (?k - 1) * 2 powi (bitlen b) = 2 powi (bitlen a - 1)"
      by (simp add: power_int_add [symmetric])
    moreover have "(2::rat) powi (?k - 1) * of_int b \<le> 2 powi (?k - 1) * 2 powi (bitlen b)"
      by (rule mult_left_mono [OF less_imp_le [OF bitlen_rat_bounds(2) [OF bpos]]]) simp
    ultimately have "(2::rat) powi (?k - 1) * of_int b \<le> of_int a"
      by linarith
    then show ?thesis using B by (simp add: q pos_le_divide_eq)
  qed
  have step: "(2::rat) powi (?k - 1 + 1) = 2 powi ?k" by simp
  show "2 powi (ilog2 q) \<le> q"
    using lo by (simp add: ilog2_def ab Let_def)
  show "q < 2 powi (ilog2 q + 1)"
    using up by (simp add: ilog2_def ab Let_def not_le)
qed


lemma ilog2_less:
  assumes "0 < q" "q < 2 powi k"
  shows "ilog2 q < k"
proof (rule ccontr)
  assume "\<not> ilog2 q < k"
  then have "k \<le> ilog2 q" by simp
  then have "(2::rat) powi k \<le> 2 powi (ilog2 q)"
    by (intro power_int_increasing) simp_all
  with ilog2_bounds(1) [OF assms(1)] assms(2) show False by linarith
qed

lemma round_half_even_of_int: "round_half_even (of_int m) = m"
  by (simp add: round_half_even_def)

lemma div_mult_cancel_rat: "c \<noteq> 0 \<Longrightarrow> x / c * c = (x::rat)"
  by simp

lemma b64_mag_dyadic:
  assumes "0 < a" "a < 2 ^ 53" "j \<le> 1074"
  shows "b64_mag (of_int a / 2 ^ j) = Some (of_int a / 2 ^ j)"
proof -
  let ?q = "of_int a / 2 ^ j :: rat"
  have qpos: "0 < ?q" using assms(1) by simp
  have "(of_int a :: rat) < of_int (2 ^ 53)" using assms(2) by (simp only: of_int_less_iff)
  then have a53: "(of_int a :: rat) < 2 ^ 53" by simp
  have pj: "(2::rat) ^ j = 2 powi (int j)" by simp
  have "?q < 2 ^ 53 / 2 ^ j" using a53 by (simp add: divide_strict_right_mono)
  also have "\<dots> = 2 powi (53 - int j)"
    by (simp add: power_int_diff)
  finally have "ilog2 ?q < 53 - int j" by (rule ilog2_less [OF qpos])
  define p where "p = max (ilog2 ?q - 52) (- 1074)"
  have pj': "p \<le> - int j" using \<open>ilog2 ?q < 53 - int j\<close> assms(3) by (simp add: p_def)
  define m where "m = a * 2 ^ nat (- int j - p)"
  have "?q / 2 powi p = of_int a * 2 powi (- int j - p)"
    by (simp add: power_int_diff power_int_minus field_simps)
  also have "\<dots> = of_int m"
    using pj' by (simp add: m_def power_int_def)
  finally have qm: "?q / 2 powi p = of_int m" .
  have pnz: "(2::rat) powi p \<noteq> 0" by simp
  have "of_int (round_half_even (?q / 2 powi p)) * 2 powi p = ?q / 2 powi p * 2 powi p"
    by (simp only: qm round_half_even_of_int)
  also have "\<dots> = ?q"
    by (rule div_mult_cancel_rat [OF pnz])
  finally have r: "of_int (round_half_even (?q / 2 powi p)) * 2 powi p = ?q" .
  have "?q \<le> of_int a" using assms(1) by (simp add: divide_le_eq)
  also have "\<dots> < 2 ^ 1024"
    using a53 by (rule less_trans) simp
  finally have small: "\<not> 2 ^ 1024 \<le> ?q" by simp
  have nz: "?q \<noteq> 0" using assms(1) by simp
  show ?thesis
    unfolding b64_mag_def Let_def p_def [symmetric]
    by (simp only: nz if_False r small)
qed

lemma b64_dyadic:
  assumes "0 < a" "a < 2 ^ 53" "j \<le> 1074"
  shows "b64 neg (of_int a / 2 ^ j) = Fin (if neg then - (of_int a / 2 ^ j) else of_int a / 2 ^ j)"
  using assms(1) by (simp add: b64_def b64_mag_dyadic [OF assms])

lemma b64_zero: "b64 neg 0 = (if neg then NegZero else Fin 0)"
  by (simp add: b64_def b64_mag_def)

subsection \<open>Formatting with two decimals and reading the result back\<close>

lemma round_half_even_nonneg: "0 \<le> q \<Longrightarrow> 0 \<le> round_half_even q"
  by (auto simp: round_half_even_def Let_def) 

lemma float_of_str_format_fixed2:
  assumes "0 \<le> q"
  shows "float_of_str (format_fixed2 neg q) = Some (b64 neg (of_int (round_half_even (q * 100)) / 100))"
proof -
  define n where "n = nat (round_half_even (q * 100))"
  have n: "int n = round_half_even (q * 100)"
    using round_half_even_nonneg [of "q * 100"] assms by (simp add: n_def)
  have "int (n div 100) * 100 + int (n mod 100) = int n"
    by (simp add: zdiv_int zmod_int)
  then show ?thesis
    using float_of_str_fixed [of "n mod 100" neg "n div 100"]
    by (simp add: format_fixed2_def Let_def n_def [symmetric] n [symmetric])
qed

lemma float_of_str_specials:
  "float_of_str ''inf'' = Some PInf" "float_of_str ''-inf'' = Some NInf" "float_of_str ''nan'' = Some NaN"
  by code_simp+

lemma float_of_str_format_2f: "float_of_str (format_2f x) = Some (round_2dp x)"
proof (cases x)
  case (Fin q)
  then show ?thesis
    using float_of_str_format_fixed2 [of "\<bar>q\<bar>" "q < 0"]
    by (simp add: format_2f.simps round_2dp.simps)
next
  case NegZero
  then show ?thesis
    using float_of_str_format_fixed2 [of 0 True]
    by (simp add: format_2f.simps round_2dp.simps round_half_even_def b64_zero)
qed (simp_all add: format_2f.simps round_2dp.simps float_of_str_specials)

lemma two_decimals_fixed:
  "two_decimals (format_fixed2 neg q)"
proof -
  define n where "n = nat (round_half_even (q * 100))"
  let ?u = "str_nat (n div 100) @ CHR ''.'' # two_digits (n mod 100)"
  obtain c cs where ccs: "str_nat (n div 100) = c # cs"
    using str_nat_nonempty [of "n div 100"] by (cases "str_nat (n div 100)") auto
  have dc: "is_digit c"
    using str_nat_digits [of "n div 100"] by (simp add: ccs)
  then have cm: "c \<noteq> CHR ''-''" using not_digit_chars by auto
  have t: "takeWhile is_digit ?u = str_nat (n div 100)"
    by (rule takeWhile_digits_stop) (simp_all add: str_nat_digits not_digit_chars)
  have d: "dropWhile is_digit ?u = CHR ''.'' # two_digits (n mod 100)"
    by (rule dropWhile_digits_stop) (simp_all add: str_nat_digits not_digit_chars)
  have u: "(case (if neg then ''-'' else []) @ ?u of [] \<Rightarrow> [] | c # cs \<Rightarrow> if c = CHR ''-'' then cs else (if neg then ''-'' else []) @ ?u) = ?u"
    using cm by (simp add: ccs)
  have td: "list_all is_digit (two_digits (n mod 100))"
    by (rule two_digits_digits) simp
  have len: "length (two_digits (n mod 100)) = 2" by (simp add: two_digits_def)
  have "format_fixed2 neg q = (if neg then ''-'' else []) @ ?u"
    by (simp add: format_fixed2_def Let_def n_def)
  then show ?thesis
    unfolding two_decimals_def Let_def
    by (simp only: u t d) (simp add: str_nat_nonempty td len)
qed

lemma two_decimals_format_2f: "float_isfinite x \<Longrightarrow> two_decimals (format_2f x)"
  by (cases x) (simp_all add: format_2f.simps two_decimals_fixed)

subsection \<open>Floats of some short numerals\<close>

lemma float_of_str_decimal:
  assumes "underscores_ok (CHR ''x'') s"
    and "split_sign (filter (\<lambda>c. c \<noteq> CHR ''_'') s) = (neg, u)"
    and "map ascii_lower u \<noteq> ''inf''" "map ascii_lower u \<noteq> ''infinity''" "map ascii_lower u \<noteq> ''nan''"
    and "parse_decimal u = Some (m, e)"
  shows "float_of_str s = Some (b64 neg (of_int m * 10 powi e))"
  using assms by (simp add: float_of_str_def)

lemma float_3_5: "float_of_str ''3.5'' = Some (Fin (7 / 2))"
proof -
  have "float_of_str ''3.5'' = Some (b64 False (of_int 35 * 10 powi (- 1)))"
    by (rule float_of_str_decimal [where u = "''3.5''"]; code_simp)
  also have "of_int 35 * 10 powi (- 1) = (of_int 7 / 2 ^ 1 :: rat)"
    by (simp add: power_int_def)
  finally show ?thesis
    using b64_dyadic [of 7 1 False] by simp
qed

lemma float_2500: "float_of_str ''2500'' = Some (Fin 2500)"
proof -
  have "float_of_str ''2500'' = Some (b64 False (of_int 2500 * 10 powi 0))"
    by (rule float_of_str_decimal [where u = "''2500''"]; code_simp)
  then show ?thesis
    using b64_dyadic [of 2500 0 False] by simp
qed

lemma float_5: "float_of_str ''5'' = Some (Fin 5)"
proof -
  have "float_of_str ''5'' = Some (b64 False (of_int 5 * 10 powi 0))"
    by (rule float_of_str_decimal [where u = "''5''"]; code_simp)
  then show ?thesis
    using b64_dyadic [of 5 0 False] by simp
qed

lemma float_minus_1: "float_of_str ''-1'' = Some (Fin (- 1))"
proof -
  have "float_of_str ''-1'' = Some (b64 True (of_int 1 * 10 powi 0))"
    by (rule float_of_str_decimal [where u = "''1''"]; code_simp)
  then show ?thesis
    using b64_dyadic [of 1 0 True] by simp
qed

lemma float_abc: "float_of_str ''abc'' = None"
  by code_simp

lemma float_0_00: "float_of_str ''0.00'' = Some (Fin 0)"
  by code_simp

lemma round_2dp_int:
  assumes "0 < a" "a < 2 ^ 53"
  shows "round_2dp (Fin (of_int a)) = Fin (of_int a)"
proof -
  have "\<bar>of_int a :: rat\<bar> * 100 = of_int (a * 100)" using assms(1) by simp
  then have "round_half_even (\<bar>of_int a :: rat\<bar> * 100) = a * 100"
    by (simp only: round_half_even_of_int)
  then show ?thesis
    using b64_dyadic [OF assms, of 0 False] assms(1) by (simp add: round_2dp.simps)
qed

lemma float_lt0_not_ge0: "float_lt0 x \<Longrightarrow> \<not> float_ge0 x"
  by (cases x) auto


lemma float_150_00: "float_of_str ''150.00'' = Some (Fin 150)"
proof -
  have "float_of_str ''150.00'' = Some (b64 False (of_int 15000 * 10 powi (- 2)))"
    by (rule float_of_str_decimal [where u = "''150.00''"]; code_simp)
  also have "of_int 15000 * 10 powi (- 2) = (of_int 150 / 2 ^ 0 :: rat)"
    by (simp add: power_int_def power2_eq_square)
  finally show ?thesis
    using b64_dyadic [of 150 0 False] by simp
qed


lemma float_250_50: "float_of_str ''250.50'' = Some (Fin (501 / 2))"
proof -
  have "float_of_str ''250.50'' = Some (b64 False (of_int 25050 * 10 powi (- 2)))"
    by (rule float_of_str_decimal [where u = "''250.50''"]; code_simp)
  also have "of_int 25050 * 10 powi (- 2) = (of_int 501 / 2 ^ 1 :: rat)"
    by (simp add: power_int_def power2_eq_square)
  finally show ?thesis
    using b64_dyadic [of 501 1 False] by simp
qed





subsection \<open>Rounding to binary64 in general: overflow, and the rounded value\<close>

lemma floor_le_round_half_even: "\<lfloor>x\<rfloor> \<le> round_half_even x"
  by (simp add: round_half_even_def Let_def)

lemma b64_mag_overflow:
  assumes "2 ^ 1024 \<le> q"
  shows "b64_mag q = None"
proof -
  have qpos: "0 < q" using assms by (rule less_le_trans [rotated]) simp
  define e where "e = ilog2 q"
  have lo: "2 powi e \<le> q" and hi: "q < 2 powi (e + 1)"
    unfolding e_def by (rule ilog2_bounds [OF qpos])+
  have "(2::rat) powi 1024 \<le> q" using assms by simp
  with hi have "(2::rat) powi 1024 < 2 powi (e + 1)" by simp
  have e: "1024 \<le> e"
  proof (rule ccontr)
    assume "\<not> 1024 \<le> e"
    then have "e + 1 \<le> 1024" by simp
    then have "(2::rat) powi (e + 1) \<le> 2 powi 1024"
      by (intro power_int_increasing) simp_all
    with \<open>(2::rat) powi 1024 < 2 powi (e + 1)\<close> show False by simp
  qed
  then have p: "max (e - 52) (- 1074) = e - 52" by simp
  define K :: rat where "K = 2 powi 52"
  define P :: rat where "P = 2 powi (e - 52)"
  have pp: "0 < P" by (simp add: P_def)
  have KP: "K * P = 2 powi e"
    unfolding K_def P_def by (subst power_int_add [symmetric]) simp_all
  have Kint: "K = of_int (2 ^ 52)" by (simp add: K_def)
  from lo KP have "K * P \<le> q" by simp
  then have "K \<le> q / P" using pp by (simp add: pos_le_divide_eq)
  then have "2 ^ 52 \<le> \<lfloor>q / P\<rfloor>" unfolding Kint by (simp only: le_floor_iff)
  with floor_le_round_half_even [of "q / P"]
  have "2 ^ 52 \<le> round_half_even (q / P)" by (rule order_trans [rotated])
  then have "K \<le> of_int (round_half_even (q / P))"
    unfolding Kint by (simp only: of_int_le_iff)
  then have "K * P \<le> of_int (round_half_even (q / P)) * P"
    using pp by (intro mult_right_mono) simp_all
  then have "(2::rat) powi e \<le> of_int (round_half_even (q / P)) * P"
    by (simp only: KP)
  moreover have "(2::rat) powi 1024 \<le> 2 powi e"
    using e by (intro power_int_increasing) simp_all
  ultimately have "(2::rat) powi 1024 \<le> of_int (round_half_even (q / P)) * P"
    by (rule order_trans [rotated])
  then have big: "(2::rat) ^ 1024 \<le> of_int (round_half_even (q / 2 powi (e - 52))) * 2 powi (e - 52)"
    unfolding P_def by simp
  have nz: "q \<noteq> 0" using qpos by simp
  show ?thesis
    unfolding b64_mag_def Let_def e_def [symmetric] p
    by (simp only: nz if_False big if_True)
qed

lemma big_power: "(2::rat) ^ 1024 \<le> 10 ^ 400"
  by simp










lemma float_1e400: "float_of_str ''1e400'' = Some PInf"
proof -
  have "float_of_str ''1e400'' = Some (b64 False (of_int 1 * 10 powi 400))"
    by (rule float_of_str_decimal [where u = "''1e400''"]; code_simp)
  moreover have "b64_mag (of_int 1 * 10 powi 400) = None"
    using big_power by (intro b64_mag_overflow) (simp add: power_int_def)
  ultimately show ?thesis by (simp add: b64_def)
qed

section \<open>Facts about the handlers\<close>

subsection \<open>Ids and counters\<close>

lemma str_nat_inj: "n = m" if "str_nat n = str_nat m"
proof -
  have "int n = int_of_digits (str_nat n)" by (simp only: int_of_digits_str_nat)
  also have "\<dots> = int_of_digits (str_nat m)" by (simp only: that)
  also have "\<dots> = int m" by (simp only: int_of_digits_str_nat)
  finally show ?thesis by simp
qed

lemma str_nat_no_minus: "str_nat n \<noteq> CHR ''-'' # cs"
proof
  assume "str_nat n = CHR ''-'' # cs"
  then have "is_digit (CHR ''-'')" using str_nat_digits [of n] by simp
  then show False using not_digit_chars by simp
qed

lemma str_int_inj: "str_int i = str_int j \<Longrightarrow> i = j"
proof -
  assume e: "str_int i = str_int j"
  consider "i < 0" "j < 0" | "i < 0" "0 \<le> j" | "0 \<le> i" "j < 0" | "0 \<le> i" "0 \<le> j"
    by linarith
  then show ?thesis
  proof cases
    case 1
    with e have "nat (- i) = nat (- j)" by (simp add: str_int_def str_nat_inj)
    with 1 show ?thesis by simp
  next
    case 2
    with e str_nat_no_minus [of "nat j" "str_nat (nat (- i))"] show ?thesis
      by (simp add: str_int_def)
  next
    case 3
    with e str_nat_no_minus [of "nat i" "str_nat (nat (- j))"] show ?thesis
      by (simp add: str_int_def)
  next
    case 4
    with e have "nat i = nat j" by (simp add: str_int_def str_nat_inj)
    with 4 show ?thesis by simp
  qed
qed

lemma handle_tasks:
  "(tasks (handle s r) = tasks s \<or> (\<exists>tid. tasks (handle s r) = filter (\<lambda>t. task_id t \<noteq> tid) (tasks s)))
     \<and> task_id_counter (handle s r) = task_id_counter s
   \<or> (\<exists>t. tasks (handle s r) = t # tasks s \<and> task_id t = str_int (task_id_counter s))
     \<and> task_id_counter (handle s r) = task_id_counter s + 1"
  by (cases r)
     (auto simp: set_budget_def add_task_def delete_task_def add_expense_def delete_expense_def Let_def
           split: option.splits)

lemma handle_expenses:
  "(expenses (handle s r) = expenses s
      \<or> (\<exists>eid. expenses (handle s r) = filter (\<lambda>e. expense_id e \<noteq> eid) (expenses s)))
     \<and> expense_id_counter (handle s r) = expense_id_counter s
   \<or> (\<exists>e. expenses (handle s r) = e # expenses s \<and> expense_id e = str_int (expense_id_counter s))
     \<and> expense_id_counter (handle s r) = expense_id_counter s + 1"
  by (cases r)
     (auto simp: set_budget_def add_task_def delete_task_def add_expense_def delete_expense_def Let_def
           split: option.splits)

lemma length_filter_not_less: "\<not> length xs < length (filter P xs)"
  by (simp add: not_less)

lemma issued_task_ids_fresh:
  "distinct (issued_task_ids s rs)
   \<and> (\<forall>i \<in> set (issued_task_ids s rs). \<exists>k. task_id_counter s \<le> k \<and> i = str_int k)"
proof (induction rs arbitrary: s)
  case Nil
  show ?case by simp
next
  case (Cons r rs)
  note IH = Cons.IH [of "handle s r"]
  from handle_tasks [of s r] show ?case
  proof (elim disjE conjE exE)
    assume "tasks (handle s r) = tasks s" "task_id_counter (handle s r) = task_id_counter s"
    with IH show ?thesis by simp
  next
    fix tid
    assume "tasks (handle s r) = filter (\<lambda>t. task_id t \<noteq> tid) (tasks s)"
      "task_id_counter (handle s r) = task_id_counter s"
    with IH show ?thesis by (simp add: length_filter_not_less)
  next
    fix t
    assume t: "tasks (handle s r) = t # tasks s" "task_id t = str_int (task_id_counter s)"
      and c: "task_id_counter (handle s r) = task_id_counter s + 1"
    have "str_int (task_id_counter s) \<notin> set (issued_task_ids (handle s r) rs)"
    proof
      assume "str_int (task_id_counter s) \<in> set (issued_task_ids (handle s r) rs)"
      with IH c obtain k where "task_id_counter s + 1 \<le> k" "str_int (task_id_counter s) = str_int k"
        by auto
      then show False using str_int_inj by fastforce
    qed
    moreover have "\<forall>i \<in> set (issued_task_ids (handle s r) rs). \<exists>k. task_id_counter s \<le> k \<and> i = str_int k"
    proof
      fix i assume "i \<in> set (issued_task_ids (handle s r) rs)"
      with IH c obtain k where "task_id_counter s + 1 \<le> k" "i = str_int k" by auto
      then have "task_id_counter s \<le> k \<and> i = str_int k" by simp
      then show "\<exists>k. task_id_counter s \<le> k \<and> i = str_int k" ..
    qed
    ultimately show ?thesis using IH t by auto
  qed
qed

lemma issued_expense_ids_fresh:
  "distinct (issued_expense_ids s rs)
   \<and> (\<forall>i \<in> set (issued_expense_ids s rs). \<exists>k. expense_id_counter s \<le> k \<and> i = str_int k)"
proof (induction rs arbitrary: s)
  case Nil
  show ?case by simp
next
  case (Cons r rs)
  note IH = Cons.IH [of "handle s r"]
  from handle_expenses [of s r] show ?case
  proof (elim disjE conjE exE)
    assume "expenses (handle s r) = expenses s" "expense_id_counter (handle s r) = expense_id_counter s"
    with IH show ?thesis by simp
  next
    fix eid
    assume "expenses (handle s r) = filter (\<lambda>e. expense_id e \<noteq> eid) (expenses s)"
      "expense_id_counter (handle s r) = expense_id_counter s"
    with IH show ?thesis by (simp add: length_filter_not_less)
  next
    fix e
    assume t: "expenses (handle s r) = e # expenses s" "expense_id e = str_int (expense_id_counter s)"
      and c: "expense_id_counter (handle s r) = expense_id_counter s + 1"
    have "str_int (expense_id_counter s) \<notin> set (issued_expense_ids (handle s r) rs)"
    proof
      assume "str_int (expense_id_counter s) \<in> set (issued_expense_ids (handle s r) rs)"
      with IH c obtain k where "expense_id_counter s + 1 \<le> k" "str_int (expense_id_counter s) = str_int k"
        by auto
      then show False using str_int_inj by fastforce
    qed
    moreover have "\<forall>i \<in> set (issued_expense_ids (handle s r) rs). \<exists>k. expense_id_counter s \<le> k \<and> i = str_int k"
    proof
      fix i assume "i \<in> set (issued_expense_ids (handle s r) rs)"
      with IH c obtain k where "expense_id_counter s + 1 \<le> k" "i = str_int k" by auto
      then have "expense_id_counter s \<le> k \<and> i = str_int k" by simp
      then show "\<exists>k. expense_id_counter s \<le> k \<and> i = str_int k" ..
    qed
    ultimately show ?thesis using IH t by auto
  qed
qed

lemma ids_below_handle:
  assumes "ids_below s"
  shows "ids_below (handle s r)"
proof -
  have T: "distinct (map task_id (tasks (handle s r)))
     \<and> (\<forall>t \<in> set (tasks (handle s r)). \<exists>k. k < task_id_counter (handle s r) \<and> task_id t = str_int k)"
    using handle_tasks [of s r]
  proof (elim disjE conjE exE)
    assume "tasks (handle s r) = tasks s" "task_id_counter (handle s r) = task_id_counter s"
    with assms show ?thesis by (simp add: ids_below_def)
  next
    fix tid
    assume "tasks (handle s r) = filter (\<lambda>t. task_id t \<noteq> tid) (tasks s)"
      "task_id_counter (handle s r) = task_id_counter s"
    with assms show ?thesis by (simp add: ids_below_def distinct_map_filter)
  next
    fix t
    assume t: "tasks (handle s r) = t # tasks s" "task_id t = str_int (task_id_counter s)"
      and c: "task_id_counter (handle s r) = task_id_counter s + 1"
    have "str_int (task_id_counter s) \<notin> task_id ` set (tasks s)"
    proof
      assume "str_int (task_id_counter s) \<in> task_id ` set (tasks s)"
      then obtain u where "u \<in> set (tasks s)" "task_id u = str_int (task_id_counter s)" by auto
      with assms obtain k where "k < task_id_counter s" "str_int k = str_int (task_id_counter s)"
        by (auto simp: ids_below_def)
      then show False using str_int_inj by fastforce
    qed
    moreover have "\<forall>u \<in> set (tasks s). \<exists>k. k < task_id_counter s + 1 \<and> task_id u = str_int k"
    proof
      fix u assume "u \<in> set (tasks s)"
      with assms obtain k where "k < task_id_counter s" "task_id u = str_int k"
        by (auto simp: ids_below_def)
      then have "k < task_id_counter s + 1 \<and> task_id u = str_int k" by simp
      then show "\<exists>k. k < task_id_counter s + 1 \<and> task_id u = str_int k" ..
    qed
    moreover have "\<exists>k. k < task_id_counter s + 1 \<and> task_id t = str_int k"
      using t(2) by (intro exI [of _ "task_id_counter s"]) simp
    ultimately show ?thesis using assms t c by (simp add: ids_below_def)
  qed
  have E: "distinct (map expense_id (expenses (handle s r)))
     \<and> (\<forall>e \<in> set (expenses (handle s r)). \<exists>k. k < expense_id_counter (handle s r) \<and> expense_id e = str_int k)"
    using handle_expenses [of s r]
  proof (elim disjE conjE exE)
    assume "expenses (handle s r) = expenses s" "expense_id_counter (handle s r) = expense_id_counter s"
    with assms show ?thesis by (simp add: ids_below_def)
  next
    fix eid
    assume "expenses (handle s r) = filter (\<lambda>e. expense_id e \<noteq> eid) (expenses s)"
      "expense_id_counter (handle s r) = expense_id_counter s"
    with assms show ?thesis by (simp add: ids_below_def distinct_map_filter)
  next
    fix e
    assume t: "expenses (handle s r) = e # expenses s" "expense_id e = str_int (expense_id_counter s)"
      and c: "expense_id_counter (handle s r) = expense_id_counter s + 1"
    have "str_int (expense_id_counter s) \<notin> expense_id ` set (expenses s)"
    proof
      assume "str_int (expense_id_counter s) \<in> expense_id ` set (expenses s)"
      then obtain u where "u \<in> set (expenses s)" "expense_id u = str_int (expense_id_counter s)" by auto
      with assms obtain k where "k < expense_id_counter s" "str_int k = str_int (expense_id_counter s)"
        by (auto simp: ids_below_def)
      then show False using str_int_inj by fastforce
    qed
    moreover have "\<forall>u \<in> set (expenses s). \<exists>k. k < expense_id_counter s + 1 \<and> expense_id u = str_int k"
    proof
      fix u assume "u \<in> set (expenses s)"
      with assms obtain k where "k < expense_id_counter s" "expense_id u = str_int k"
        by (auto simp: ids_below_def)
      then have "k < expense_id_counter s + 1 \<and> expense_id u = str_int k" by simp
      then show "\<exists>k. k < expense_id_counter s + 1 \<and> expense_id u = str_int k" ..
    qed
    moreover have "\<exists>k. k < expense_id_counter s + 1 \<and> expense_id e = str_int k"
      using t(2) by (intro exI [of _ "expense_id_counter s"]) simp
    ultimately show ?thesis using assms t c by (simp add: ids_below_def)
  qed
  from T E show ?thesis by (simp add: ids_below_def)
qed

lemma ids_below_run: "ids_below s \<Longrightarrow> ids_below (run s rs)"
  unfolding run_def by (induction rs arbitrary: s) (simp_all add: ids_below_handle)

lemma ids_below_initial: "ids_below initial_state"
  by (simp add: ids_below_def initial_state_def)

lemma counters_never_decrease:
  "task_id_counter s \<le> task_id_counter (handle s r)
   \<and> expense_id_counter s \<le> expense_id_counter (handle s r)"
  using handle_tasks [of s r] handle_expenses [of s r] by auto

lemma example_tasks:
  "issued_task_ids initial_state
     [AddTask (task_form ''Buy milk'' []), DeleteTask ''1'', AddTask (task_form ''Call Ann'' ''Home'')]
   = [''1'', ''2'']"
  by code_simp

lemma add_expense_created:
  assumes "float_of_str (strip (form_get f ''expense-amount'' [])) = Some x"
    and "float_ge0 x"
    and "strip (form_get f ''expense-description'' []) \<noteq> []"
  shows "add_expense f s =
           s\<lparr>expenses := \<lparr>expense_id = str_int (expense_id_counter s),
                           description = strip (form_get f ''expense-description'' []),
                           amount = format_2f x,
                           category = strip (form_get f ''expense-category'' ''Other'')\<rparr> # expenses s,
             expense_id_counter := expense_id_counter s + 1\<rparr>"
  using assms by (simp add: add_expense_def Let_def)

lemma example_tea:
  "add_expense (expense_form ''Tea'' ''5'' ''Food'') s =
     s\<lparr>expenses := \<lparr>expense_id = str_int (expense_id_counter s), description = ''Tea'',
                     amount = ''5.00'', category = ''Food''\<rparr> # expenses s,
       expense_id_counter := expense_id_counter s + 1\<rparr>"
proof -
  have a: "strip (form_get (expense_form ''Tea'' ''5'' ''Food'') ''expense-amount'' []) = ''5''"
    by code_simp
  have d: "strip (form_get (expense_form ''Tea'' ''5'' ''Food'') ''expense-description'' []) = ''Tea''"
    by code_simp
  have c: "strip (form_get (expense_form ''Tea'' ''5'' ''Food'') ''expense-category'' ''Other'') = ''Food''"
    by code_simp
  have f: "format_2f (Fin 5) = ''5.00''"
    by code_simp
  show ?thesis
    using add_expense_created [of "expense_form ''Tea'' ''5'' ''Food''" "Fin 5" s]
    by (simp add: a d c f float_5)
qed

lemma example_expenses:
  "issued_expense_ids initial_state
     [AddExpense (expense_form ''Tea'' ''5'' ''Food''), DeleteExpense ''1'',
      AddExpense (expense_form ''Tea'' ''5'' ''Food'')]
   = [''1'', ''2'']"
proof -
  have i: "str_int 1 = ''1''" "str_int 2 = ''2''"
    by code_simp+
  show ?thesis
    by (simp add: example_tea delete_expense_def initial_state_def i)
qed

subsection \<open>Stored amounts and the dashboard\<close>





lemma set_budget_stored:
  assumes "float_of_str (strip (form_get f ''total-budget-input'' ''0.00'')) = Some x"
    and "float_ge0 x"
  shows "set_budget f s = s\<lparr>total_trip_budget := round_2dp x\<rparr>"
  using assms by (simp add: set_budget_def float_of_str_format_2f)

subsection \<open>Sums without rounding, and some sums with it\<close>





















subsection \<open>The retry loop\<close>

lemma on_ok_events: "on_ok loads r = (res, ev) \<Longrightarrow> posts ev = 0 \<and> actions ev = []"
  by (auto simp: on_ok_def split: option.splits sum.splits json.splits if_splits)

lemma schedule_Suc: "schedule (Suc n) d = Post # (if n = 0 then [] else Sleep d # schedule n (d * 2))"
  by (cases n) simp_all

lemma retry_loop_posts:
  "retry_loop loads i d net = (res, ev) \<Longrightarrow> i < max_retries \<Longrightarrow>
     1 \<le> posts ev \<and> posts ev \<le> max_retries - i
     \<and> actions ev = take (2 * posts ev - 1) (schedule (max_retries - i) d)"
proof (induction loads i d net arbitrary: res ev rule: retry_loop.induct)
  case (1 loads i delay net)
  from "1.prems"(2) obtain m0 where m0: "max_retries - i = Suc m0"
    by (cases "max_retries - i") auto
  show ?case
  proof (cases net)
    case Nil
    with "1.prems" show ?thesis
      by (subst (asm) retry_loop.simps) (auto simp: schedule_Suc m0)
  next
    case (Cons out rest)
    show ?thesis
    proof (cases out)
      case Raises
      with Cons "1.prems" show ?thesis
        by (subst (asm) retry_loop.simps) (auto simp: schedule_Suc m0)
    next
      case (Response r)
      consider (ok) "status_code r = 200"
        | (retry) "status_code r \<noteq> 200" "status_code r \<in> set [429, 500, 503]" "i < max_retries - 1"
        | (stop) "status_code r \<noteq> 200" "\<not> (status_code r \<in> set [429, 500, 503] \<and> i < max_retries - 1)"
        by blast
      then show ?thesis
      proof cases
        case ok
        obtain res' ev' where o: "on_ok loads r = (res', ev')" by (cases "on_ok loads r")
        from on_ok_events [OF o] have e: "posts ev' = 0" "actions ev' = []" by auto
        from "1.prems" Cons Response ok o have "ev = Post # ev'"
          by (subst (asm) retry_loop.simps) auto
        with e show ?thesis
          by (simp add: schedule_Suc m0)
      next
        case retry
        obtain res' ev' where o: "retry_loop loads (i + 1) (delay * 2) rest = (res', ev')"
          by (cases "retry_loop loads (i + 1) (delay * 2) rest")
        from retry have i1: "i + 1 < max_retries" by simp
        from "1.IH" [OF "1.prems"(2) Cons Response retry(1) _ o i1] retry
        have IH: "1 \<le> posts ev'" "posts ev' \<le> max_retries - (i + 1)"
          "actions ev' = take (2 * posts ev' - 1) (schedule (max_retries - (i + 1)) (delay * 2))"
          by auto
        from "1.prems" Cons Response retry o have ev: "ev = Post # Sleep delay # ev'"
          by (subst (asm) retry_loop.simps) auto
        obtain m where m: "max_retries - i = Suc (Suc m)" "max_retries - (i + 1) = Suc m"
          using i1 by (metis Suc_diff_Suc Suc_eq_plus1 add_lessD1 diff_Suc_Suc less_imp_Suc_add zero_less_diff)
        obtain p where p: "posts ev' = Suc p" using IH(1) by (cases "posts ev'") auto
        show ?thesis
          using IH ev m p by (simp add: ) 
      next
        case stop
        with "1.prems" Cons Response have "ev = [Post, Print (ApiError (status_code r))]"
          by (subst (asm) retry_loop.simps) auto
        then show ?thesis
          by (simp add: schedule_Suc m0)
      qed
    qed
  qed
qed

lemma retry_loop_responses:
  "retry_loop loads i d net = (res, ev) \<Longrightarrow> i < max_retries \<Longrightarrow>
     (\<forall>k. Suc k < posts ev \<longrightarrow>
        k < length net \<and> (\<exists>r. net ! k = Response r \<and> status_code r \<in> set [429, 500, 503]))
     \<and> (\<forall>k r. k < posts ev \<and> k < length net \<and> net ! k = Response r \<and> status_code r = 200
            \<longrightarrow> posts ev = Suc k)
     \<and> ((\<forall>r. \<not> (posts ev \<le> length net \<and> net ! (posts ev - 1) = Response r \<and> status_code r = 200))
            \<longrightarrow> res = Inr (JArr []) \<or> (\<exists>e. res = Inl e))"
proof (induction loads i d net arbitrary: res ev rule: retry_loop.induct)
  case (1 loads i delay net)
  show ?case
  proof (cases net)
    case Nil
    have "retry_loop loads i delay net = (Inl ConnectionError, [Post])"
      using "1.prems"(2) Nil by (subst retry_loop.simps) simp
    with "1.prems"(1) have "ev = [Post]" "res = Inl ConnectionError"
      by simp_all
    with Nil show ?thesis
      by simp
  next
    case (Cons out rest)
    show ?thesis
    proof (cases out)
      case Raises
      have "retry_loop loads i delay net = (Inl ConnectionError, [Post])"
        using "1.prems"(2) Cons Raises by (subst retry_loop.simps) simp
      with "1.prems"(1) have "ev = [Post]" "res = Inl ConnectionError"
        by simp_all
      with Cons Raises show ?thesis
        by simp
    next
      case (Response r)
      consider (ok) "status_code r = 200"
        | (retry) "status_code r \<noteq> 200" "status_code r \<in> set [429, 500, 503]" "i < max_retries - 1"
        | (stop) "status_code r \<noteq> 200" "\<not> (status_code r \<in> set [429, 500, 503] \<and> i < max_retries - 1)"
        by blast
      then show ?thesis
      proof cases
        case ok
        obtain res' ev' where o: "on_ok loads r = (res', ev')" by (cases "on_ok loads r")
        from on_ok_events [OF o] have e: "posts ev' = 0" by auto
        have "retry_loop loads i delay net = (res', Post # ev')"
          using "1.prems"(2) Cons Response ok o by (subst retry_loop.simps) simp
        with "1.prems"(1) have "ev = Post # ev'"
          by simp
        with e Cons Response ok show ?thesis
          by simp
      next
        case retry
        obtain res' ev' where o: "retry_loop loads (i + 1) (delay * 2) rest = (res', ev')"
          by (cases "retry_loop loads (i + 1) (delay * 2) rest")
        from retry have i1: "i + 1 < max_retries" by simp
        from retry_loop_posts [OF o i1] obtain p where p: "posts ev' = Suc p"
          by (cases "posts ev'") auto
        have rc: "status_code r \<in> set [429, 500, 503] \<and> i < max_retries - 1"
          using retry(2,3) by (rule conjI)
        note IH = "1.IH" [OF "1.prems"(2) Cons Response retry(1) rc o i1]
        note A = IH [THEN conjunct1]
        note B = IH [THEN conjunct2, THEN conjunct1]
        note C = IH [THEN conjunct2, THEN conjunct2]
        have "retry_loop loads i delay net = (res', Post # Sleep delay # ev')"
          using "1.prems"(2) Cons Response retry o by (subst retry_loop.simps) simp
        with "1.prems"(1) have ev: "ev = Post # Sleep delay # ev'" and res: "res = res'"
          by simp_all
        have P: "posts ev = Suc (posts ev')" by (simp add: ev)
        have 1: "\<forall>k. Suc k < posts ev \<longrightarrow>
                 k < length net \<and> (\<exists>r. net ! k = Response r \<and> status_code r \<in> set [429, 500, 503])"
        proof (intro allI impI)
          fix k assume k: "Suc k < posts ev"
          show "k < length net \<and> (\<exists>r. net ! k = Response r \<and> status_code r \<in> set [429, 500, 503])"
          proof (cases k)
            case 0
            with Cons Response retry show ?thesis by simp
          next
            case (Suc k')
            with k P have "Suc k' < posts ev'" by simp
            with A Suc Cons show ?thesis by simp
          qed
        qed
        have 2: "\<forall>k r. k < posts ev \<and> k < length net \<and> net ! k = Response r \<and> status_code r = 200
                 \<longrightarrow> posts ev = Suc k"
        proof (intro allI impI)
          fix k r' assume k: "k < posts ev \<and> k < length net \<and> net ! k = Response r' \<and> status_code r' = 200"
          show "posts ev = Suc k"
          proof (cases k)
            case 0
            with k Cons Response retry show ?thesis by simp
          next
            case (Suc k')
            with k P Cons have "k' < posts ev' \<and> k' < length rest \<and> rest ! k' = Response r' \<and> status_code r' = 200"
              by simp
            with B have "posts ev' = Suc k'" by blast
            with P Suc show ?thesis by simp
          qed
        qed
        have 3: "(\<forall>r. \<not> (posts ev \<le> length net \<and> net ! (posts ev - 1) = Response r \<and> status_code r = 200))
                 \<longrightarrow> res = Inr (JArr []) \<or> (\<exists>e. res = Inl e)"
          using C by (simp add: P p Cons res)
        from 1 2 3 show ?thesis by blast
      next
        case stop
        have "retry_loop loads i delay net = (Inr (JArr []), [Post, Print (ApiError (status_code r))])"
          using "1.prems"(2) Cons Response stop by (subst retry_loop.simps) auto
        with "1.prems"(1) have "ev = [Post, Print (ApiError (status_code r))]" "res = Inr (JArr [])"
          by simp_all
        with Cons Response stop show ?thesis
          by simp
      qed
    qed
  qed
qed

lemma posts_print: "posts (ev @ [Print l]) = posts ev"
  by (induction ev rule: posts.induct) simp_all

lemma actions_print: "actions (ev @ [Print l]) = actions ev"
  by (induction ev rule: actions.induct) simp_all

lemma schedule_3: "schedule max_retries 1 = [Post, Sleep 1, Post, Sleep 2, Post]"
  by (simp add: max_retries_def eval_nat_numeral)

lemma get_suggestions_returns:
  "\<exists>w. fst (get_suggestions loads (JObj [(''query'', JStr q)]) net) = Inr w"
  by (simp add: get_suggestions_def Let_def split: prod.splits)

lemma example_retries:
  "call_backend example_loads [status_only 503, status_only 503, ok_with_text ''[1, 2]'']
     = (JArr [JNum 1, JNum 2], [Post, Sleep 1, Post, Sleep 2, Post])"
  by code_simp

lemma example_exhausted:
  "call_backend example_loads [status_only 503, status_only 503, status_only 503, ok_with_text ''[1, 2]'']
     = (JArr [], [Post, Sleep 1, Post, Sleep 2, Post, Print (ApiError 503)])"
  by code_simp

subsection \<open>The value a call returns\<close>

lemma first_part_text_extract:
  "first_part_text result = Some j \<Longrightarrow> extract_text result = Inr j"
  by (auto simp: first_part_text_def extract_text_def and_then_def
           split: json.splits option.splits list.splits)

lemma retry_loop_settles:
  "i < max_retries \<Longrightarrow>
     fst (retry_loop loads i d net)
       = (case settles (max_retries - i) net of
            Raises \<Rightarrow> Inl ConnectionError
          | Response r \<Rightarrow> if status_code r = 200 then fst (on_ok loads r) else Inr (JArr []))"
proof (induction loads i d net rule: retry_loop.induct)
  case (1 loads i delay net)
  note lt = "1.prems"
  show ?case
  proof (cases net)
    case Nil
    with lt show ?thesis by (subst retry_loop.simps) simp
  next
    case (Cons out rest)
    show ?thesis
    proof (cases out)
      case Raises
      with lt Cons show ?thesis by (subst retry_loop.simps) simp
    next
      case (Response r)
      consider (ok) "status_code r = 200"
        | (retry) "status_code r \<noteq> 200" "status_code r \<in> set [429, 500, 503]" "i < max_retries - 1"
        | (stop) "status_code r \<noteq> 200" "\<not> (status_code r \<in> set [429, 500, 503] \<and> i < max_retries - 1)"
        by blast
      then show ?thesis
      proof cases
        case ok
        then have "settles (max_retries - i) net = Response r"
          using Cons Response by simp
        moreover have "fst (retry_loop loads i delay net) = fst (on_ok loads r)"
          using lt Cons Response ok by (subst retry_loop.simps) (simp split: prod.splits)
        ultimately show ?thesis using ok by simp
      next
        case retry
        have rc: "status_code r \<in> set [429, 500, 503] \<and> i < max_retries - 1"
          using retry(2,3) by (rule conjI)
        from retry have i1: "i + 1 < max_retries" by simp
        have n: "1 < max_retries - i" using retry(3) by simp
        have m: "max_retries - i - 1 = max_retries - (i + 1)" by simp
        have "settles (max_retries - i) net = settles (max_retries - (i + 1)) rest"
          using Cons Response retry(2) n by (simp only: settles.simps m) simp
        moreover have "fst (retry_loop loads i delay net) = fst (retry_loop loads (i + 1) (delay * 2) rest)"
          using lt Cons Response retry by (subst retry_loop.simps) (simp split: prod.splits)
        ultimately show ?thesis
          using "1.IH" [OF lt Cons Response retry(1) rc i1] by simp
      next
        case stop
        have "\<not> (status_code r \<in> set [429, 500, 503] \<and> 1 < max_retries - i)"
          using stop(2) by auto
        then have "settles (max_retries - i) net = Response r"
          using Cons Response by auto
        moreover have "fst (retry_loop loads i delay net) = Inr (JArr [])"
          using lt Cons Response stop by (subst retry_loop.simps) auto
        ultimately show ?thesis using stop(1) by simp
      qed
    qed
  qed
qed

lemma call_backend_settles:
  "fst (call_backend loads net)
     = (case settles 3 net of
          Raises \<Rightarrow> JArr []
        | Response r \<Rightarrow>
            if status_code r = 200
            then (case fst (on_ok loads r) of Inl e \<Rightarrow> JArr [] | Inr v \<Rightarrow> v)
            else JArr [])"
proof -
  have m: "0 < max_retries" by (simp add: max_retries_def)
  have rl: "fst (retry_loop loads 0 1 net)
      = (case settles 3 net of
           Raises \<Rightarrow> Inl ConnectionError
         | Response r \<Rightarrow> if status_code r = 200 then fst (on_ok loads r) else Inr (JArr []))"
    using retry_loop_settles [OF m, of loads 1 net] by (simp add: max_retries_def)
  have "fst (call_backend loads net)
      = (case fst (retry_loop loads 0 1 net) of Inl e \<Rightarrow> JArr [] | Inr v \<Rightarrow> v)"
    by (simp add: call_backend_def split: prod.splits sum.splits)
  then show ?thesis
    by (simp add: rl split: outcome.splits)
qed

lemma on_ok_cases:
  "json_body r = None \<Longrightarrow> (case fst (on_ok loads r) of Inl e \<Rightarrow> JArr [] | Inr v \<Rightarrow> v) = JArr []"
  "json_body r = Some result \<Longrightarrow> extract_text result = Inl e
     \<Longrightarrow> (case fst (on_ok loads r) of Inl e \<Rightarrow> JArr [] | Inr v \<Rightarrow> v) = JArr []"
  "json_body r = Some result \<Longrightarrow> extract_text result = Inr j \<Longrightarrow> \<forall>t. j \<noteq> JStr t
     \<Longrightarrow> (case fst (on_ok loads r) of Inl e \<Rightarrow> JArr [] | Inr v \<Rightarrow> v) = JArr []"
  "json_body r = Some result \<Longrightarrow> extract_text result = Inr (JStr t) \<Longrightarrow> loads t = Inl e'
     \<Longrightarrow> (case fst (on_ok loads r) of Inl e \<Rightarrow> JArr [] | Inr v \<Rightarrow> v) = JArr []"
  "json_body r = Some result \<Longrightarrow> extract_text result = Inr (JStr t) \<Longrightarrow> loads t = Inr v
     \<Longrightarrow> (case fst (on_ok loads r) of Inl e \<Rightarrow> JArr [] | Inr v \<Rightarrow> v) = v"
  by (auto simp: on_ok_def split: json.splits)

section \<open>The properties\<close>

text \<open>
  \<^bold>\<open>C2.\<close> As stated, the property covers every amount that \<open>float\<close> reads as a value
  that is not negative.  The amount \<open>1e400\<close> is such a numeral; \<open>float\<close> reads it as
  infinity, and the record is stored with the amount \<open>inf\<close>, which has no decimal digits.
  What holds: when the trimmed amount is read as a finite float that is not negative
  (zero included) and the trimmed description is not empty, \<open>add_expense\<close> puts one new
  record in front of the list, so the list is one longer, and the amount it stores has
  exactly two decimal digits.  The witness is the amount \<open>3.5\<close>, stored as \<open>3.50\<close>.
\<close>

theorem add_expense_overflow_counterexample:
  "expenses (add_expense (expense_form ''Gold'' ''1e400'' ''Other'') initial_state)
     = [\<lparr>expense_id = ''1'', description = ''Gold'', amount = ''inf'', category = ''Other''\<rparr>]
   \<and> \<not> two_decimals ''inf''"
proof -
  have a: "strip (form_get (expense_form ''Gold'' ''1e400'' ''Other'') ''expense-amount'' []) = ''1e400''"
    by code_simp
  have d: "strip (form_get (expense_form ''Gold'' ''1e400'' ''Other'') ''expense-description'' []) = ''Gold''"
    by code_simp
  have c: "strip (form_get (expense_form ''Gold'' ''1e400'' ''Other'') ''expense-category'' ''Other'') = ''Other''"
    by code_simp
  have i: "str_int 1 = ''1''"
    by code_simp
  have t: "\<not> two_decimals ''inf''"
    by code_simp
  have "add_expense (expense_form ''Gold'' ''1e400'' ''Other'') initial_state
      = initial_state\<lparr>expenses := [\<lparr>expense_id = ''1'', description = ''Gold'', amount = ''inf'',
                                      category = ''Other''\<rparr>],
                       expense_id_counter := 2\<rparr>"
    using add_expense_created [of "expense_form ''Gold'' ''1e400'' ''Other''" PInf initial_state]
    by (simp add: a d c i float_1e400 format_2f.simps initial_state_def)
  with t show ?thesis by simp
qed

theorem add_expense_stores:
  assumes "float_of_str (strip (form_get f ''expense-amount'' [])) = Some x"
    and "float_isfinite x" and "float_ge0 x"
    and "strip (form_get f ''expense-description'' []) \<noteq> []"
  shows "expenses (add_expense f s) =
           \<lparr>expense_id = str_int (expense_id_counter s),
            description = strip (form_get f ''expense-description'' []),
            amount = format_2f x,
            category = strip (form_get f ''expense-category'' ''Other'')\<rparr> # expenses s
         \<and> length (expenses (add_expense f s)) = length (expenses s) + 1
         \<and> two_decimals (amount (hd (expenses (add_expense f s))))"
  using assms by (simp add: add_expense_def Let_def two_decimals_format_2f)

theorem add_expense_stores_witness:
  "map amount (expenses (add_expense (expense_form ''Coffee'' ''3.5'' ''Food'') initial_state)) = [''3.50'']
   \<and> length (expenses (add_expense (expense_form ''Coffee'' ''3.5'' ''Food'') initial_state)) = 1
   \<and> two_decimals ''3.50''"
proof -
  have a: "strip (form_get (expense_form ''Coffee'' ''3.5'' ''Food'') ''expense-amount'' []) = ''3.5''"
    by code_simp
  have d: "strip (form_get (expense_form ''Coffee'' ''3.5'' ''Food'') ''expense-description'' []) \<noteq> []"
    by code_simp
  have p: "float_of_str (strip (form_get (expense_form ''Coffee'' ''3.5'' ''Food'') ''expense-amount'' [])) = Some (Fin (7 / 2))"
    by (simp only: a float_3_5)
  have f: "format_2f (Fin (7 / 2)) = ''3.50''"
    by code_simp
  have e: "expenses initial_state = []"
    by (simp add: initial_state_def)
  show ?thesis
    using add_expense_stores [OF p _ _ d, of initial_state]
    by (simp add: f e) (elim conjE, simp)
qed

text \<open>
  \<^bold>\<open>C3.\<close> A budget string that \<open>float\<close> rejects, or reads as a negative value, leaves the
  state as it is; one that it reads as a value that is not negative overwrites the budget
  with that value rounded to two decimals.  Setting \<open>2500\<close> and then \<open>abc\<close> leaves the
  budget at \<open>2500.00\<close>.
\<close>

theorem set_budget_effect:
  assumes "raw = strip (form_get f ''total-budget-input'' ''0.00'')"
  shows "(float_of_str raw = None \<or> (\<exists>x. float_of_str raw = Some x \<and> float_lt0 x)
            \<longrightarrow> set_budget f s = s)
       \<and> (\<forall>x. float_of_str raw = Some x \<and> float_ge0 x
            \<longrightarrow> set_budget f s = s\<lparr>total_trip_budget := round_2dp x\<rparr>)
       \<and> total_trip_budget
            (run initial_state [SetBudget (budget_form ''2500''), SetBudget (budget_form ''abc'')])
          = Fin 2500"
proof (intro conjI)
  show "float_of_str raw = None \<or> (\<exists>x. float_of_str raw = Some x \<and> float_lt0 x)
          \<longrightarrow> set_budget f s = s"
    using assms by (auto simp: set_budget_def Let_def float_lt0_not_ge0)
  show "\<forall>x. float_of_str raw = Some x \<and> float_ge0 x
          \<longrightarrow> set_budget f s = s\<lparr>total_trip_budget := round_2dp x\<rparr>"
    using assms by (auto simp: set_budget_def Let_def float_of_str_format_2f)
  have a: "strip (form_get (budget_form ''2500'') ''total-budget-input'' ''0.00'') = ''2500''"
    by code_simp
  have b: "strip (form_get (budget_form ''abc'') ''total-budget-input'' ''0.00'') = ''abc''"
    by code_simp
  have r: "round_2dp (Fin 2500) = Fin 2500"
    using round_2dp_int [of 2500] by simp
  show "total_trip_budget
          (run initial_state [SetBudget (budget_form ''2500''), SetBudget (budget_form ''abc'')])
        = Fin 2500"
    by (simp add: run_def set_budget_def a b float_2500 float_abc float_of_str_format_2f r)
qed

theorem set_budget_effect_witness:
  "set_budget (budget_form ''abc'') initial_state = initial_state
   \<and> set_budget (budget_form ''-1'') initial_state = initial_state
   \<and> set_budget (budget_form ''2500'') initial_state = initial_state\<lparr>total_trip_budget := Fin 2500\<rparr>"
proof -
  have a: "''abc'' = strip (form_get (budget_form ''abc'') ''total-budget-input'' ''0.00'')"
    by code_simp
  have b: "''-1'' = strip (form_get (budget_form ''-1'') ''total-budget-input'' ''0.00'')"
    by code_simp
  have c: "''2500'' = strip (form_get (budget_form ''2500'') ''total-budget-input'' ''0.00'')"
    by code_simp
  have r: "round_2dp (Fin 2500) = Fin 2500"
    using round_2dp_int [of 2500] by simp
  show ?thesis
    using set_budget_effect [OF a, of initial_state] set_budget_effect [OF b, of initial_state]
      set_budget_effect [OF c, of initial_state]
    by (simp add: float_abc float_minus_1 float_2500 r)
qed

text \<open>
  \<^bold>\<open>C4.\<close> When the trimmed task text is not empty, \<open>add_task\<close> puts one new task in front
  of the list, with the counter's value as its id, and the counter goes up by one; the
  location may be empty.  When the trimmed text is empty the state is unchanged.
\<close>

theorem add_task_effect:
  "(strip (form_get f ''task-input'' []) \<noteq> [] \<longrightarrow>
      tasks (add_task f s) =
        \<lparr>task_id = str_int (task_id_counter s),
         task_text = strip (form_get f ''task-input'' []),
         location = strip (form_get f ''location-input'' [])\<rparr> # tasks s
      \<and> length (tasks (add_task f s)) = length (tasks s) + 1
      \<and> task_id_counter (add_task f s) = task_id_counter s + 1)
   \<and> (strip (form_get f ''task-input'' []) = [] \<longrightarrow> add_task f s = s)"
  by (simp add: add_task_def Let_def)

theorem add_task_effect_witness:
  "tasks (add_task (task_form '' Buy milk '' []) initial_state)
     = [\<lparr>task_id = ''1'', task_text = ''Buy milk'', location = []\<rparr>]
   \<and> task_id_counter (add_task (task_form '' Buy milk '' []) initial_state) = 2
   \<and> add_task (task_form ''  '' ''Park'') initial_state = initial_state"
proof -
  have a: "strip (form_get (task_form '' Buy milk '' []) ''task-input'' []) = ''Buy milk''"
    by code_simp
  have b: "strip (form_get (task_form '' Buy milk '' []) ''location-input'' []) = []"
    by code_simp
  have c: "strip (form_get (task_form ''  '' ''Park'') ''task-input'' []) = []"
    by code_simp
  have i: "str_int 1 = ''1''"
    by code_simp
  show ?thesis
    using add_task_effect [of "task_form '' Buy milk '' []" initial_state]
      add_task_effect [of "task_form ''  '' ''Park''" initial_state]
    by (simp add: a b c i initial_state_def)
qed

text \<open>
  \<^bold>\<open>C5.\<close> When \<open>float\<close> rejects the trimmed amount, or reads it as a negative value, or the
  trimmed description is empty, \<open>add_expense\<close> leaves the state (the expense list and the
  id counter with it) unchanged; the handler returns normally.
\<close>

theorem add_expense_rejects:
  assumes "amt = strip (form_get f ''expense-amount'' [])"
    and "float_of_str amt = None \<or> (\<exists>x. float_of_str amt = Some x \<and> float_lt0 x)
         \<or> strip (form_get f ''expense-description'' []) = []"
  shows "add_expense f s = s"
  using assms by (auto simp: add_expense_def Let_def float_lt0_not_ge0 split: option.splits)

theorem add_expense_rejects_witness:
  "add_expense (expense_form ''Tea'' ''-1'' ''Food'') initial_state = initial_state
   \<and> add_expense (expense_form [] ''5'' ''Food'') initial_state = initial_state
   \<and> add_expense (expense_form ''Tea'' ''abc'' ''Food'') initial_state = initial_state"
proof -
  have a: "''-1'' = strip (form_get (expense_form ''Tea'' ''-1'' ''Food'') ''expense-amount'' [])"
    by code_simp
  have b: "''5'' = strip (form_get (expense_form [] ''5'' ''Food'') ''expense-amount'' [])"
    by code_simp
  have c: "''abc'' = strip (form_get (expense_form ''Tea'' ''abc'' ''Food'') ''expense-amount'' [])"
    by code_simp
  have d: "strip (form_get (expense_form [] ''5'' ''Food'') ''expense-description'' []) = []"
    by code_simp
  show ?thesis
    using add_expense_rejects [OF a, of initial_state] add_expense_rejects [OF b, of initial_state]
      add_expense_rejects [OF c, of initial_state]
    by (simp add: float_minus_1 float_abc d)
qed

text \<open>
  \<^bold>\<open>C7.\<close> As stated, the property asks that a blank category is stored as \<open>Other\<close>.  A form whose
  category field is present and blank is stored with the empty category: the default \<open>Other\<close> is taken only when
  the form has no category field.  What holds: a record that is created has the category
  \<open>Other\<close> when the field is absent and the trimmed field otherwise.
\<close>

theorem add_expense_blank_category_counterexample:
  "expenses (add_expense (expense_form ''Tea'' ''5'' ''  '') initial_state)
     = [\<lparr>expense_id = ''1'', description = ''Tea'', amount = ''5.00'', category = []\<rparr>]"
proof -
  have a: "strip (form_get (expense_form ''Tea'' ''5'' ''  '') ''expense-amount'' []) = ''5''"
    by code_simp
  have d: "strip (form_get (expense_form ''Tea'' ''5'' ''  '') ''expense-description'' []) = ''Tea''"
    by code_simp
  have c: "strip (form_get (expense_form ''Tea'' ''5'' ''  '') ''expense-category'' ''Other'') = []"
    by code_simp
  have f: "format_2f (Fin 5) = ''5.00''"
    by code_simp
  have i: "str_int 1 = ''1''"
    by code_simp
  show ?thesis
    by (simp add: add_expense_def a d c f i float_5 initial_state_def)
qed

theorem add_expense_category:
  assumes "float_of_str (strip (form_get f ''expense-amount'' [])) = Some x"
    and "float_ge0 x"
    and "strip (form_get f ''expense-description'' []) \<noteq> []"
  shows "length (expenses (add_expense f s)) = length (expenses s) + 1
       \<and> category (hd (expenses (add_expense f s)))
           = (case f ''expense-category'' of None \<Rightarrow> ''Other'' | Some c \<Rightarrow> strip c)"
proof -
  have "strip ''Other'' = ''Other''"
    by code_simp
  then show ?thesis
    using assms by (simp add: add_expense_def Let_def form_get_def split: option.splits)
qed

theorem add_expense_category_witness:
  "category (hd (expenses (add_expense (no_category_form ''Tea'' ''5'') initial_state))) = ''Other''
   \<and> category (hd (expenses (add_expense (expense_form ''Tea'' ''5'' '' Food '') initial_state))) = ''Food''"
proof -
  have a: "strip (form_get (no_category_form ''Tea'' ''5'') ''expense-amount'' []) = ''5''"
    by code_simp
  have d: "strip (form_get (no_category_form ''Tea'' ''5'') ''expense-description'' []) \<noteq> []"
    by code_simp
  have c: "no_category_form ''Tea'' ''5'' ''expense-category'' = None"
    by code_simp
  have a': "strip (form_get (expense_form ''Tea'' ''5'' '' Food '') ''expense-amount'' []) = ''5''"
    by code_simp
  have d': "strip (form_get (expense_form ''Tea'' ''5'' '' Food '') ''expense-description'' []) \<noteq> []"
    by code_simp
  have c': "expense_form ''Tea'' ''5'' '' Food '' ''expense-category'' = Some '' Food ''"
    by code_simp
  have s: "strip '' Food '' = ''Food''"
    by code_simp
  have p: "float_of_str (strip (form_get (no_category_form ''Tea'' ''5'') ''expense-amount'' [])) = Some (Fin 5)"
    by (simp only: a float_5)
  have p': "float_of_str (strip (form_get (expense_form ''Tea'' ''5'' '' Food '') ''expense-amount'' [])) = Some (Fin 5)"
    by (simp only: a' float_5)
  show ?thesis
    using add_expense_category [OF p _ d, of initial_state]
      add_expense_category [OF p' _ d', of initial_state]
    by (simp add: c c' s)
qed

text \<open>
  \<^bold>\<open>C10.\<close> A form without the field \<open>total-budget-input\<close> sets the budget to \<open>0.00\<close>, whatever
  it was before: the default string \<open>0.00\<close> is read as zero and stored.
\<close>

theorem set_budget_missing_field:
  assumes "f ''total-budget-input'' = None"
  shows "set_budget f s = s\<lparr>total_trip_budget := Fin 0\<rparr>"
proof -
  have "strip (form_get f ''total-budget-input'' ''0.00'') = ''0.00''"
    using assms by (simp add: form_get_def) code_simp
  moreover have "round_2dp (Fin 0) = Fin 0"
    by (simp add: round_2dp.simps round_half_even_def b64_zero)
  ultimately show ?thesis
    by (simp add: set_budget_def float_0_00 float_of_str_format_2f)
qed

theorem set_budget_missing_field_witness:
  "total_trip_budget (set_budget Map.empty (initial_state\<lparr>total_trip_budget := Fin 2500\<rparr>)) = Fin 0"
  using set_budget_missing_field [of Map.empty "initial_state\<lparr>total_trip_budget := Fin 2500\<rparr>"]
  by simp

text \<open>
  \<^bold>\<open>C9.\<close> In every run of requests from the initial state, adds and deletes in any order,
  the ids given to new tasks are pairwise different, and so are the ids given to new
  expenses: an id is never given twice, also not after its record was deleted.  The ids
  within each collection are pairwise different, and no request lowers a counter.
\<close>

theorem ids_never_reused:
  "distinct (issued_task_ids initial_state rs)
   \<and> distinct (issued_expense_ids initial_state rs)
   \<and> distinct (map task_id (tasks (run initial_state rs)))
   \<and> distinct (map expense_id (expenses (run initial_state rs)))
   \<and> task_id_counter (run initial_state rs) \<le> task_id_counter (handle (run initial_state rs) r)
   \<and> expense_id_counter (run initial_state rs) \<le> expense_id_counter (handle (run initial_state rs) r)"
  using issued_task_ids_fresh [of initial_state rs] issued_expense_ids_fresh [of initial_state rs]
    ids_below_run [OF ids_below_initial, of rs] counters_never_decrease [of "run initial_state rs" r]
  by (simp add: ids_below_def)

theorem ids_never_reused_witness:
  "distinct (issued_task_ids initial_state
       [AddTask (task_form ''Buy milk'' []), DeleteTask ''1'', AddTask (task_form ''Call Ann'' ''Home'')])
   \<and> issued_task_ids initial_state
       [AddTask (task_form ''Buy milk'' []), DeleteTask ''1'', AddTask (task_form ''Call Ann'' ''Home'')]
     = [''1'', ''2'']
   \<and> distinct (issued_expense_ids initial_state
       [AddExpense (expense_form ''Tea'' ''5'' ''Food''), DeleteExpense ''1'',
        AddExpense (expense_form ''Tea'' ''5'' ''Food'')])
   \<and> issued_expense_ids initial_state
       [AddExpense (expense_form ''Tea'' ''5'' ''Food''), DeleteExpense ''1'',
        AddExpense (expense_form ''Tea'' ''5'' ''Food'')]
     = [''1'', ''2'']"
  using ids_never_reused
      [of "[AddTask (task_form ''Buy milk'' []), DeleteTask ''1'', AddTask (task_form ''Call Ann'' ''Home'')]"]
    ids_never_reused
      [of "[AddExpense (expense_form ''Tea'' ''5'' ''Food''), DeleteExpense ''1'',
            AddExpense (expense_form ''Tea'' ''5'' ''Food'')]"]
    example_tasks example_expenses
  by simp




text \<open>
  \<^bold>\<open>C1.\<close> Whatever the backend answers, a call sends at least one and at most three
  requests; the requests and waits are an initial part of: request, wait 1, request,
  wait 2, request.  A further request is sent only after an answer with status 429, 500
  or 503; an answer with status 200 is the last one, whether or not its text can be
  decoded.  Unless the last answer has status 200 the call returns the empty array.  The
  call always returns a value, and so does the handler, for every query string.
\<close>

theorem gateway_retry_policy:
  assumes "call_backend loads net = (v, ev)"
  shows "1 \<le> posts ev \<and> posts ev \<le> 3
     \<and> actions ev = take (2 * posts ev - 1) [Post, Sleep 1, Post, Sleep 2, Post]
     \<and> (\<forall>k. Suc k < posts ev \<longrightarrow>
           k < length net \<and> (\<exists>r. net ! k = Response r \<and> status_code r \<in> {429, 500, 503}))
     \<and> (\<forall>k r. k < posts ev \<and> k < length net \<and> net ! k = Response r \<and> status_code r = 200
           \<longrightarrow> posts ev = Suc k)
     \<and> ((\<forall>r. \<not> (posts ev \<le> length net \<and> net ! (posts ev - 1) = Response r \<and> status_code r = 200))
           \<longrightarrow> v = JArr [])
     \<and> (\<exists>w. fst (get_suggestions loads (JObj [(''query'', JStr q)]) net) = Inr w)"
proof -
  obtain res ev0 where l: "retry_loop loads 0 1 net = (res, ev0)"
    by (cases "retry_loop loads 0 1 net")
  have m: "0 < max_retries" by (simp add: max_retries_def)
  from assms l have pe: "posts ev = posts ev0" and ae: "actions ev = actions ev0"
    by (auto simp: call_backend_def posts_print actions_print split: sum.splits)
  from assms l have vr: "res = Inr (JArr []) \<or> (\<exists>e. res = Inl e) \<Longrightarrow> v = JArr []"
    by (auto simp: call_backend_def split: sum.splits)
  note P = retry_loop_posts [OF l m]
  note R = retry_loop_responses [OF l m]
  have 1: "1 \<le> posts ev \<and> posts ev \<le> 3"
    using P by (simp add: pe max_retries_def)
  have 2: "actions ev = take (2 * posts ev - 1) [Post, Sleep 1, Post, Sleep 2, Post]"
    using P by (simp add: pe ae schedule_3)
  have 3: "\<forall>k. Suc k < posts ev \<longrightarrow>
           k < length net \<and> (\<exists>r. net ! k = Response r \<and> status_code r \<in> {429, 500, 503})"
    using R [THEN conjunct1] by (simp add: pe)
  have 4: "\<forall>k r. k < posts ev \<and> k < length net \<and> net ! k = Response r \<and> status_code r = 200
           \<longrightarrow> posts ev = Suc k"
    using R [THEN conjunct2, THEN conjunct1] by (simp add: pe)
  have 5: "(\<forall>r. \<not> (posts ev \<le> length net \<and> net ! (posts ev - 1) = Response r \<and> status_code r = 200))
           \<longrightarrow> v = JArr []"
    using R [THEN conjunct2, THEN conjunct2] vr by (simp add: pe)
  show ?thesis
    by (rule conjI [OF 1 [THEN conjunct1] conjI [OF 1 [THEN conjunct2] conjI [OF 2 conjI [OF 3
          conjI [OF 4 conjI [OF 5 get_suggestions_returns [of loads q net]]]]]]])
qed

theorem gateway_retry_policy_witness:
  "call_backend example_loads [status_only 503, status_only 503, ok_with_text ''[1, 2]'']
     = (JArr [JNum 1, JNum 2], [Post, Sleep 1, Post, Sleep 2, Post])
   \<and> posts [Post, Sleep 1, Post, Sleep 2, Post] \<le> 3
   \<and> actions [Post, Sleep 1, Post, Sleep 2, Post] = [Post, Sleep 1, Post, Sleep 2, Post]
   \<and> call_backend example_loads
        [status_only 503, status_only 503, status_only 503, ok_with_text ''[1, 2]'']
     = (JArr [], [Post, Sleep 1, Post, Sleep 2, Post, Print (ApiError 503)])
   \<and> posts [Post, Sleep 1, Post, Sleep 2, Post, Print (ApiError 503)] \<le> 3"
proof -
  note a = gateway_retry_policy [OF example_retries]
  note b = gateway_retry_policy [OF example_exhausted]
  have p: "posts [Post, Sleep 1, Post, Sleep 2, Post] \<le> 3"
    by (rule a [THEN conjunct2, THEN conjunct1])
  have "actions [Post, Sleep 1, Post, Sleep 2, Post]
          = take (2 * posts [Post, Sleep 1, Post, Sleep 2, Post] - 1) [Post, Sleep 1, Post, Sleep 2, Post]"
    by (rule a [THEN conjunct2, THEN conjunct2, THEN conjunct1])
  then have c: "actions [Post, Sleep 1, Post, Sleep 2, Post] = [Post, Sleep 1, Post, Sleep 2, Post]"
    by simp
  have q: "posts [Post, Sleep 1, Post, Sleep 2, Post, Print (ApiError 503)] \<le> 3"
    by (rule b [THEN conjunct2, THEN conjunct1])
  show ?thesis
    by (rule conjI [OF example_retries conjI [OF p conjI [OF c conjI [OF example_exhausted q]]]])
qed

text \<open>
  \<^bold>\<open>C8.\<close> As stated, the property asks that every response is a JSON array.  When the
  backend answers 200 with a text that decodes to a value that is no array, the handler
  returns that value: the decoded value is passed on without a check.  What holds, for a
  request whose body is an object with a string for \<open>query\<close> or without one: a trimmed
  query of fewer than three characters is answered with the empty array and no request
  is sent.  Otherwise the answer the call ends on decides: the response is the empty
  array when the request raised, when the status is not 200, when the body of the 200
  answer is not JSON, when taking the text out raises, when the text is present but not
  a string, and when the text cannot be decoded; when the text is present and decodes,
  the response is the decoded value as it is.
\<close>

theorem suggestions_not_array_counterexample:
  "fst (get_suggestions example_loads (JObj [(''query'', JStr ''cafe'')]) [ok_with_text ''{}''])
     = Inr (JObj [])
   \<and> \<not> is_array (JObj [])"
  by code_simp

theorem suggestions_response:
  assumes "map_of kvs ''query'' = Some (JStr q) \<or> (map_of kvs ''query'' = None \<and> q = [])"
  shows
   "(length (strip q) < 3 \<longrightarrow> get_suggestions loads (JObj kvs) net = (Inr (JArr []), []))
    \<and> (3 \<le> length (strip q) \<longrightarrow>
         (settles 3 net = Raises \<longrightarrow> fst (get_suggestions loads (JObj kvs) net) = Inr (JArr []))
       \<and> (\<forall>r. settles 3 net = Response r \<and> status_code r \<noteq> 200
              \<longrightarrow> fst (get_suggestions loads (JObj kvs) net) = Inr (JArr []))
       \<and> (\<forall>r. settles 3 net = Response r \<and> status_code r = 200 \<and> json_body r = None
              \<longrightarrow> fst (get_suggestions loads (JObj kvs) net) = Inr (JArr []))
       \<and> (\<forall>r result e. ends_with_ok net r result \<and> extract_text result = Inl e
              \<longrightarrow> fst (get_suggestions loads (JObj kvs) net) = Inr (JArr []))
       \<and> (\<forall>r result j. ends_with_ok net r result \<and> first_part_text result = Some j \<and> (\<forall>t. j \<noteq> JStr t)
              \<longrightarrow> fst (get_suggestions loads (JObj kvs) net) = Inr (JArr []))
       \<and> (\<forall>r result t e. ends_with_ok net r result \<and> first_part_text result = Some (JStr t)
                \<and> loads t = Inl e
              \<longrightarrow> fst (get_suggestions loads (JObj kvs) net) = Inr (JArr []))
       \<and> (\<forall>r result t v. ends_with_ok net r result \<and> first_part_text result = Some (JStr t)
                \<and> loads t = Inr v
              \<longrightarrow> fst (get_suggestions loads (JObj kvs) net) = Inr v))"
proof (intro conjI impI allI)
  from assms have q: "py_get (JObj kvs) ''query'' (JStr []) = Inr (JStr q)" by auto
  {
    assume "length (strip q) < 3"
    then show "get_suggestions loads (JObj kvs) net = (Inr (JArr []), [])"
      using q by (simp add: get_suggestions_def)
  }
  {
    assume "3 \<le> length (strip q)"
    then have g: "fst (get_suggestions loads (JObj kvs) net) = Inr (fst (call_backend loads net))"
      using q by (simp add: get_suggestions_def split: prod.splits)
    {
      assume "settles 3 net = Raises"
      then show "fst (get_suggestions loads (JObj kvs) net) = Inr (JArr [])"
        by (simp add: g call_backend_settles)
    }
    {
      fix r assume "settles 3 net = Response r \<and> status_code r \<noteq> 200"
      then show "fst (get_suggestions loads (JObj kvs) net) = Inr (JArr [])"
        by (simp add: g call_backend_settles)
    }
    {
      fix r assume "settles 3 net = Response r \<and> status_code r = 200 \<and> json_body r = None"
      then show "fst (get_suggestions loads (JObj kvs) net) = Inr (JArr [])"
        by (simp add: g call_backend_settles on_ok_cases(1))
    }
    {
      fix r result e assume "ends_with_ok net r result \<and> extract_text result = Inl e"
      then show "fst (get_suggestions loads (JObj kvs) net) = Inr (JArr [])"
        by (simp add: g call_backend_settles ends_with_ok_def on_ok_cases(2))
    }
    {
      fix r result j
      assume a: "ends_with_ok net r result \<and> first_part_text result = Some j \<and> (\<forall>t. j \<noteq> JStr t)"
      then have "extract_text result = Inr j" by (simp add: first_part_text_extract)
      with a show "fst (get_suggestions loads (JObj kvs) net) = Inr (JArr [])"
        by (simp add: g call_backend_settles ends_with_ok_def on_ok_cases(3))
    }
    {
      fix r result t e
      assume a: "ends_with_ok net r result \<and> first_part_text result = Some (JStr t) \<and> loads t = Inl e"
      then have "extract_text result = Inr (JStr t)" by (simp add: first_part_text_extract)
      with a show "fst (get_suggestions loads (JObj kvs) net) = Inr (JArr [])"
        by (simp add: g call_backend_settles ends_with_ok_def on_ok_cases(4))
    }
    {
      fix r result t v
      assume a: "ends_with_ok net r result \<and> first_part_text result = Some (JStr t) \<and> loads t = Inr v"
      then have "extract_text result = Inr (JStr t)" by (simp add: first_part_text_extract)
      with a show "fst (get_suggestions loads (JObj kvs) net) = Inr v"
        by (simp add: g call_backend_settles ends_with_ok_def on_ok_cases(5))
    }
  }
qed

theorem suggestions_response_witness:
  "fst (get_suggestions example_loads (JObj [(''query'', JStr ''cafe'')])
          [status_only 503, Response (text_response ''[1, 2]'')])
     = Inr (JArr [JNum 1, JNum 2])
   \<and> fst (get_suggestions example_loads (JObj [(''query'', JStr ''cafe'')])
          [status_only 503, status_only 503, status_only 503, Response (text_response ''[1, 2]'')])
     = Inr (JArr [])
   \<and> get_suggestions example_loads (JObj [(''query'', JStr '' ab '')])
          [Response (text_response ''[1, 2]'')]
     = (Inr (JArr []), [])"
proof -
  have q: "map_of [(''query'', JStr ''cafe'')] ''query'' = Some (JStr ''cafe'')
           \<or> (map_of [(''query'', JStr ''cafe'')] ''query'' = None \<and> ''cafe'' = [])"
    by simp
  have q': "map_of [(''query'', JStr '' ab '')] ''query'' = Some (JStr '' ab '')
           \<or> (map_of [(''query'', JStr '' ab '')] ''query'' = None \<and> '' ab '' = [])"
    by simp
  have l: "3 \<le> length (strip ''cafe'')" by code_simp
  have l': "length (strip '' ab '') < 3" by code_simp
  have e: "ends_with_ok [status_only 503, Response (text_response ''[1, 2]'')]
             (text_response ''[1, 2]'') (text_body ''[1, 2]'')
           \<and> first_part_text (text_body ''[1, 2]'') = Some (JStr ''[1, 2]'')
           \<and> example_loads ''[1, 2]'' = Inr (JArr [JNum 1, JNum 2])"
    by code_simp
  have f: "settles 3 [status_only 503, status_only 503, status_only 503, Response (text_response ''[1, 2]'')]
             = Response \<lparr>status_code = 503, json_body = None\<rparr>
           \<and> status_code \<lparr>status_code = 503, json_body = None\<rparr> \<noteq> 200"
    by code_simp
  note a = suggestions_response [OF q, of example_loads
      "[status_only 503, Response (text_response ''[1, 2]'')]"]
  note b = suggestions_response [OF q, of example_loads
      "[status_only 503, status_only 503, status_only 503, Response (text_response ''[1, 2]'')]"]
  note c = suggestions_response [OF q', of example_loads "[Response (text_response ''[1, 2]'')]"]
  have 1: "fst (get_suggestions example_loads (JObj [(''query'', JStr ''cafe'')])
          [status_only 503, Response (text_response ''[1, 2]'')])
     = Inr (JArr [JNum 1, JNum 2])"
    using a [THEN conjunct2, rule_format, OF l] e by blast
  have 2: "fst (get_suggestions example_loads (JObj [(''query'', JStr ''cafe'')])
          [status_only 503, status_only 503, status_only 503, Response (text_response ''[1, 2]'')])
     = Inr (JArr [])"
    using b [THEN conjunct2, rule_format, OF l] f by blast
  have 3: "get_suggestions example_loads (JObj [(''query'', JStr '' ab '')])
          [Response (text_response ''[1, 2]'')]
     = (Inr (JArr []), [])"
    using c [THEN conjunct1, rule_format, OF l'] .
  from 1 2 3 show ?thesis by (intro conjI)
qed

end
